(* ===== verification/TC_Prelude.thy ===== *)
theory TC_Prelude
  imports Main "HOL-Library.Word"
begin

text \<open>
  The shared vocabulary of the development: machine integers, the error values of a call
  into the kernel module, the sequencing of fallible calls, and the collections of facts
  (\<open>tc_macro\<close> for the definitions that stand for C macros, \<open>tc_frame\<close> for the
  facts that an operation leaves a field alone) that the component theories fill.
\<close>

subsection \<open>Machine integers\<close>

type_synonym u8 = "8 word"
type_synonym u32 = "32 word"
type_synonym u64 = "64 word"

text \<open>Thread ids are C \<open>int\<close>s; \<open>-1\<close> stands for "no thread".\<close>

type_synonym tid = int

named_theorems tc_macro
named_theorems tc_frame

subsection \<open>Errors as values\<close>

text \<open>
  What can stop a call: a \<open>BUG_ON\<close> that fires, an access outside an array or outside a
  mapped page, a null pointer that is followed, a loop that never ends; in the user library
  also an \<open>exit\<close> and an operation that C leaves undefined.
\<close>

datatype kerr = BugOn | OutOfBounds | NullDeref | Hang | Exit | Undefined

type_synonym 'a result = "kerr + 'a"

definition bindE :: "'a result \<Rightarrow> ('a \<Rightarrow> 'b result) \<Rightarrow> 'b result" where
  "bindE m f = (case m of Inl e \<Rightarrow> Inl e | Inr x \<Rightarrow> f x)"

lemma bindE_simps [simp]:
  "bindE (Inl e) f = Inl e"
  "bindE (Inr x) f = f x"
  by (simp_all add: bindE_def)

lemma bindE_eq_Inr [simp]: "bindE m f = Inr y \<longleftrightarrow> (\<exists>x. m = Inr x \<and> f x = Inr y)"
  by (cases m) simp_all

lemma bindE_assoc: "bindE (bindE m f) g = bindE m (\<lambda>x. bindE (f x) g)"
  by (cases m) simp_all

lemma bindE_if [simp]:
  "bindE (if b then m else n) f = (if b then bindE m f else bindE n f)"
  by simp

subsection \<open>Lists\<close>

lemma remove1_split_middle:
  "x \<notin> set xs \<Longrightarrow> remove1 x (xs @ x # ys) = xs @ ys"
  by (simp add: remove1_append)

lemma last_eq_notin: "xs \<noteq> [] \<Longrightarrow> x \<notin> set xs \<Longrightarrow> last xs \<noteq> x"
  by (metis last_in_set)

lemma hd_eq_notin: "xs \<noteq> [] \<Longrightarrow> x \<notin> set xs \<Longrightarrow> hd xs \<noteq> x"
  by (metis hd_in_set)

subsection \<open>Words\<close>

lemma word_add_le_of_le_diff:
  fixes c I x :: u64
  shows "c \<le> I \<Longrightarrow> x \<le> I - c \<Longrightarrow> x + c \<le> I"
  by unat_arith

lemma word_le_diff_of_add_le:
  fixes p c I :: u64
  assumes "unat p + unat c < 2 ^ 64" "p + c \<le> I"
  shows "p \<le> I - c"
proof -
  have "unat (p + c) = unat p + unat c" using assms(1) by (simp add: unat_word_ariths)
  then have le: "unat p + unat c \<le> unat I" using assms(2) by (simp add: word_le_nat_alt)
  then have "c \<le> I" by (simp add: word_le_nat_alt)
  then have "unat (I - c) = unat I - unat c" by (simp add: unat_sub)
  with le show ?thesis by (simp add: word_le_nat_alt)
qed

text \<open>Shifting a 48-bit counter to the top of a word keeps exactly its 48 bits.\<close>

lemma push_bit_low_bits:
  fixes x y :: u64
  assumes "take_bit 48 x = take_bit 48 y"
  shows "push_bit 16 x = push_bit 16 y"
proof (rule bit_word_eqI)
  fix n assume n: "n < LENGTH(64)"
  have "bit x m = bit y m" if "m < 48" for m
    using assms that by (metis bit_take_bit_iff)
  with n show "bit (push_bit 16 x) n = bit (push_bit 16 y) n"
    by (simp add: bit_push_bit_iff)
qed

lemma uint_take_bit_add:
  fixes a c :: u64
  shows "uint (take_bit 48 (a + c)) = take_bit 48 (uint (take_bit 48 a) + uint c)"
  by (simp only: unsigned_take_bit_eq uint_word_arith_bintrs take_bit_take_bit)
    (simp add: take_bit_eq_mod mod_simps)

lemma take_bit_add_cong:
  fixes a b c :: u64
  assumes "take_bit 48 a = take_bit 48 b"
  shows "take_bit 48 (a + c) = take_bit 48 (b + c)"
proof -
  have "uint (take_bit 48 (a + c)) = uint (take_bit 48 (b + c))"
    by (simp only: uint_take_bit_add assms)
  then show ?thesis by (simp only: word_uint_eq_iff)
qed

lemma unat_of_nat_64: "n < 2 ^ 64 \<Longrightarrow> unat (of_nat n :: u64) = n"
  by (simp only: unat_of_nat) simp

subsection \<open>64-bit values passed as signed 32-bit arguments\<close>

lemma signed32_low: "uint (c :: u64) < 2 ^ 31 \<Longrightarrow> signed_take_bit 31 (uint c) = uint c"
proof -
  assume "uint c < 2 ^ 31"
  moreover have "- (2 ^ 31) \<le> uint c" by (rule order_trans[OF _ uint_ge_0]) simp
  ultimately show ?thesis by (intro signed_take_bit_int_eq_self)
qed

lemma signed32_high:
  assumes "uint (c :: u64) \<ge> 2 ^ 64 - 2 ^ 31"
  shows "word_of_int (signed_take_bit 31 (uint c)) = c"
proof -
  let ?k = "uint c - 2 ^ 64"
  have "(?k + 2 ^ 32 * 2 ^ 32) mod 2 ^ 32 = ?k mod 2 ^ 32" by (rule mod_mult_self2)
  then have "take_bit (Suc 31) (uint c) = take_bit (Suc 31) ?k" by (simp add: take_bit_eq_mod)
  then have "signed_take_bit 31 (uint c) = signed_take_bit 31 ?k" by (simp only: signed_take_bit_eq_iff_take_bit_eq)
  also have "\<dots> = ?k" using assms uint_lt2p[of c] by (intro signed_take_bit_int_eq_self) simp_all
  finally have "word_of_int (signed_take_bit 31 (uint c)) = (word_of_int ?k :: u64)" by simp
  also have "\<dots> = c"
  proof -
    have "word_of_int (2 ^ 64) = (0 :: u64)" by simp
    then show ?thesis by simp
  qed
  finally show ?thesis .
qed

lemma uint_of_signed32:
  assumes "- (2 ^ 31) \<le> x" "x < 2 ^ 31"
  shows "uint (word_of_int x :: u64) = (if 0 \<le> x then x else x + 2 ^ 64)"
proof -
  have u: "uint (word_of_int x :: u64) = x mod 2 ^ 64" by (simp add: uint_word_of_int_eq take_bit_eq_mod)
  show ?thesis
  proof (cases "0 \<le> x")
    case True
    with u assms show ?thesis by (simp add: mod_pos_pos_trivial)
  next
    case False
    have "(x + 2 ^ 64) mod 2 ^ 64 = x + 2 ^ 64" using False assms by (intro mod_pos_pos_trivial) simp_all
    with u False show ?thesis by simp
  qed
qed

text \<open>Which numbers come back unchanged.\<close>

lemma int32_roundtrip:
  "scast (ucast c :: u32) = (c :: u64) \<longleftrightarrow> unat c < 2 ^ 31 \<or> unat c \<ge> 2 ^ 64 - 2 ^ 31"
proof -
  let ?x = "signed_take_bit 31 (uint c)"
  have "sint (ucast c :: u32) = ?x" by (simp add: signed_ucast_eq)
  then have sc: "scast (ucast c :: u32) = (word_of_int ?x :: u64)" by (metis scast_eq)
  have x: "- (2 ^ 31) \<le> ?x" "?x < 2 ^ 31"
    using signed_take_bit_int_greater_eq_minus_exp[of 31 "uint c"] signed_take_bit_int_less_exp[of 31 "uint c"]
    by simp_all
  have "word_of_int ?x = c \<longleftrightarrow> uint c < 2 ^ 31 \<or> uint c \<ge> 2 ^ 64 - 2 ^ 31"
  proof
    assume "word_of_int ?x = c"
    then have "uint c = uint (word_of_int ?x :: u64)" by simp
    with uint_of_signed32[OF x] x show "uint c < 2 ^ 31 \<or> uint c \<ge> 2 ^ 64 - 2 ^ 31"
      by (auto split: if_splits)
  next
    assume "uint c < 2 ^ 31 \<or> uint c \<ge> 2 ^ 64 - 2 ^ 31"
    then show "word_of_int ?x = c" by (elim disjE) (simp_all only: signed32_low signed32_high word_of_int_uint)
  qed
  also have "\<dots> \<longleftrightarrow> unat c < 2 ^ 31 \<or> unat c \<ge> 2 ^ 64 - 2 ^ 31"
  proof -
    have cn: "uint c = int (unat c)" by simp
    show ?thesis by (simp only: cn) (simp del: of_nat_unat)
  qed
  finally show ?thesis by (simp only: sc)
qed

lemma int32_of_nat:
  assumes "n < 2 ^ 31"
  shows "scast (ucast (of_nat n :: u64) :: u32) = (of_nat n :: u64)"
proof -
  have "unat (of_nat n :: u64) = n" using assms by (intro unat_of_nat_64) simp
  with assms show ?thesis by (intro iffD2[OF int32_roundtrip]) simp
qed

end
