(* ===== verification/ListArray.thy ===== *)
theory ListArray
  imports TC_Prelude
begin

text \<open>
  \<open>src/src/module/listarray.h\<close>: the doubly linked list kept inside an array, in which
  the module keeps its active threads. Every field access of the array is checked against
  the array's bounds, so a corrupted pointer shows up as \<open>OutOfBounds\<close>.
\<close>

subsection \<open>The data structure\<close>

definition LISTARRAY_MAX_SIZE :: int where [tc_macro]: "LISTARRAY_MAX_SIZE = 4096"
definition LISTARRAY_ENTRY_NULL :: int where [tc_macro]: "LISTARRAY_ENTRY_NULL = -1"
definition LISTARRAY_ENTRY_DEAD :: int where
  [tc_macro]: "LISTARRAY_ENTRY_DEAD = LISTARRAY_MAX_SIZE + 1"

record listarray_entry =
  nxt :: int
  prv :: int

record listarray =
  entries :: "int \<Rightarrow> listarray_entry"
  head :: int
  tail :: int
  la_count :: int
  max_index :: int

definition la_in_range :: "int \<Rightarrow> bool" where
  [tc_macro]: "la_in_range i \<longleftrightarrow> 0 \<le> i \<and> i < LISTARRAY_MAX_SIZE"

definition listarray_getentry :: "listarray \<Rightarrow> int \<Rightarrow> listarray_entry result" where
  "listarray_getentry la i = (if la_in_range i then Inr (entries la i) else Inl OutOfBounds)"

definition la_set_next :: "listarray \<Rightarrow> int \<Rightarrow> int \<Rightarrow> listarray result" where
  "la_set_next la i v =
     (if la_in_range i then Inr (la\<lparr>entries := (entries la)(i := (entries la i)\<lparr>nxt := v\<rparr>)\<rparr>)
      else Inl OutOfBounds)"

definition la_set_prev :: "listarray \<Rightarrow> int \<Rightarrow> int \<Rightarrow> listarray result" where
  "la_set_prev la i v =
     (if la_in_range i then Inr (la\<lparr>entries := (entries la)(i := (entries la i)\<lparr>prv := v\<rparr>)\<rparr>)
      else Inl OutOfBounds)"

subsection \<open>The operations\<close>

definition listarray_init :: listarray where
  "listarray_init =
     \<lparr>entries = (\<lambda>_. \<lparr>nxt = LISTARRAY_ENTRY_DEAD, prv = LISTARRAY_ENTRY_DEAD\<rparr>),
      head = LISTARRAY_ENTRY_NULL, tail = LISTARRAY_ENTRY_NULL, la_count = 0, max_index = 0\<rparr>"

definition listarray_count :: "listarray \<Rightarrow> int" where
  "listarray_count la = la_count la"

definition listarray_insert :: "listarray \<Rightarrow> int \<Rightarrow> listarray result" where
  "listarray_insert la index =
     bindE (listarray_getentry la index) (\<lambda>e.
     if \<not> (nxt e = LISTARRAY_ENTRY_DEAD \<and> prv e = LISTARRAY_ENTRY_DEAD) then Inl BugOn
     else
       bindE (if tail la = LISTARRAY_ENTRY_NULL
              then la_set_prev (la\<lparr>head := index, tail := index\<rparr>) index LISTARRAY_ENTRY_NULL
              else bindE (la_set_next la (tail la) index) (\<lambda>la.
                   bindE (la_set_prev la index (tail la)) (\<lambda>la.
                   Inr (la\<lparr>tail := index\<rparr>)))) (\<lambda>la.
       bindE (la_set_next la index LISTARRAY_ENTRY_NULL) (\<lambda>la.
       let la = la\<lparr>la_count := la_count la + 1\<rparr>
       in Inr (if index > max_index la then la\<lparr>max_index := index\<rparr> else la))))"

definition listarray_remove :: "listarray \<Rightarrow> int \<Rightarrow> listarray result" where
  "listarray_remove la index =
     (if la_count la \<le> 0 then Inl BugOn
      else bindE (listarray_getentry la index) (\<lambda>e.
       bindE (if prv e = LISTARRAY_ENTRY_NULL \<and> nxt e = LISTARRAY_ENTRY_NULL
              then Inr (la\<lparr>head := LISTARRAY_ENTRY_NULL, tail := LISTARRAY_ENTRY_NULL\<rparr>)
              else if prv e = LISTARRAY_ENTRY_NULL
              then let la = la\<lparr>head := nxt e\<rparr>
                   in la_set_prev la (head la) LISTARRAY_ENTRY_NULL
              else if nxt e = LISTARRAY_ENTRY_NULL
              then let la = la\<lparr>tail := prv e\<rparr>
                   in la_set_next la (tail la) LISTARRAY_ENTRY_NULL
              else bindE (la_set_next la (prv e) (nxt e)) (\<lambda>la.
                   bindE (listarray_getentry la index) (\<lambda>e.
                   la_set_prev la (nxt e) (prv e)))) (\<lambda>la.
       bindE (la_set_next la index LISTARRAY_ENTRY_DEAD) (\<lambda>la.
       bindE (la_set_prev la index LISTARRAY_ENTRY_DEAD) (\<lambda>la.
       Inr (la\<lparr>la_count := la_count la - 1\<rparr>))))))"

definition listarray_in_list :: "listarray \<Rightarrow> int \<Rightarrow> bool result" where
  "listarray_in_list la index =
     bindE (listarray_getentry la index) (\<lambda>e.
     Inr (nxt e \<noteq> LISTARRAY_ENTRY_DEAD \<and> prv e \<noteq> LISTARRAY_ENTRY_DEAD))"

text \<open>
  The loop of \<open>listarray_foreach\<close>: the indices it visits. The array has
  \<open>LISTARRAY_MAX_SIZE\<close> entries, so a walk that has taken that many steps and has not met
  the null pointer goes round in a cycle for ever: \<open>Hang\<close>.
\<close>

fun la_walk :: "nat \<Rightarrow> listarray \<Rightarrow> int \<Rightarrow> int list result" where
  "la_walk fuel la i =
     (if i = LISTARRAY_ENTRY_NULL then Inr []
      else case fuel of 0 \<Rightarrow> Inl Hang
           | Suc fuel' \<Rightarrow>
               bindE (listarray_getentry la i) (\<lambda>e.
               bindE (la_walk fuel' la (nxt e)) (\<lambda>is. Inr (i # is))))"

declare la_walk.simps [simp del]

definition listarray_foreach :: "listarray \<Rightarrow> int list result" where
  "listarray_foreach la = la_walk (nat LISTARRAY_MAX_SIZE) la (head la)"

definition listarray_foreach_allelements :: "listarray \<Rightarrow> int list" where
  "listarray_foreach_allelements la = [0..max_index la]"

subsection \<open>Representation of a list by the array\<close>

text \<open>
  \<open>dll e p xs q\<close>: following \<open>nxt\<close> from the first element of \<open>xs\<close> visits \<open>xs\<close> and
  leaves at \<open>q\<close>; following \<open>prv\<close> goes back and leaves at \<open>p\<close>.
\<close>

fun dll :: "(int \<Rightarrow> listarray_entry) \<Rightarrow> int \<Rightarrow> int list \<Rightarrow> int \<Rightarrow> bool" where
  "dll e p [] q = True"
| "dll e p (x # xs) q =
     (prv (e x) = p \<and> nxt (e x) = (if xs = [] then q else hd xs) \<and> dll e x xs q)"

lemma dll_append:
  "dll e p (xs @ ys) q \<longleftrightarrow>
     dll e p xs (if ys = [] then q else hd ys) \<and> dll e (if xs = [] then p else last xs) ys q"
  by (induction xs arbitrary: p) auto

lemma dll_cong: "(\<And>x. x \<in> set xs \<Longrightarrow> e x = e' x) \<Longrightarrow> dll e p xs q = dll e' p xs q"
  by (induction xs arbitrary: p) auto

lemma dll_fun_upd [simp]: "i \<notin> set xs \<Longrightarrow> dll (e(i := v)) p xs q = dll e p xs q"
  by (rule dll_cong) auto

lemma dll_nxt: "dll e p xs q \<Longrightarrow> x \<in> set xs \<Longrightarrow> nxt (e x) = q \<or> nxt (e x) \<in> set xs"
  by (induction xs arbitrary: p) auto

lemma dll_prv: "dll e p xs q \<Longrightarrow> x \<in> set xs \<Longrightarrow> prv (e x) = p \<or> prv (e x) \<in> set xs"
  by (induction xs arbitrary: p) auto

text \<open>Changing what follows or precedes a segment.\<close>

lemma dll_relink_next:
  "distinct (xs @ [t]) \<Longrightarrow> dll e p (xs @ [t]) q \<Longrightarrow>
   dll (e(t := (e t)\<lparr>nxt := q'\<rparr>)) p (xs @ [t]) q'"
  by (auto simp: dll_append)

lemma dll_relink_prev:
  "distinct (h # xs) \<Longrightarrow> dll e p (h # xs) q \<Longrightarrow>
   dll (e(h := (e h)\<lparr>prv := p'\<rparr>)) p' (h # xs) q"
  by auto

text \<open>
  \<open>la_rep la xs\<close>: the array holds exactly the list \<open>xs\<close>, in order. The operations are
  shown to act on \<open>xs\<close> as append and \<open>remove1\<close> do, and the walk to return \<open>xs\<close>.
\<close>

definition la_rep :: "listarray \<Rightarrow> int list \<Rightarrow> bool" where
  "la_rep la xs \<longleftrightarrow>
     distinct xs \<and> (\<forall>x\<in>set xs. la_in_range x \<and> x \<le> max_index la) \<and>
     head la = (if xs = [] then LISTARRAY_ENTRY_NULL else hd xs) \<and>
     tail la = (if xs = [] then LISTARRAY_ENTRY_NULL else last xs) \<and>
     dll (entries la) LISTARRAY_ENTRY_NULL xs LISTARRAY_ENTRY_NULL \<and>
     (\<forall>i. la_in_range i \<longrightarrow> i \<notin> set xs \<longrightarrow>
        nxt (entries la i) = LISTARRAY_ENTRY_DEAD \<and> prv (entries la i) = LISTARRAY_ENTRY_DEAD) \<and>
     la_count la = int (length xs) \<and> la_in_range (max_index la)"

lemma la_rep_init: "la_rep listarray_init []"
  by (simp add: la_rep_def listarray_init_def tc_macro)

lemma la_rep_in_range: "la_rep la xs \<Longrightarrow> x \<in> set xs \<Longrightarrow> la_in_range x"
  by (simp add: la_rep_def)

lemma la_in_range_not_NULL [simp]: "la_in_range i \<Longrightarrow> i \<noteq> LISTARRAY_ENTRY_NULL"
  by (auto simp: tc_macro)

lemma la_in_range_not_DEAD [simp]: "la_in_range i \<Longrightarrow> i \<noteq> LISTARRAY_ENTRY_DEAD"
  by (auto simp: tc_macro)

lemma NULL_not_DEAD [simp]: "LISTARRAY_ENTRY_NULL \<noteq> LISTARRAY_ENTRY_DEAD" 
   "LISTARRAY_ENTRY_DEAD \<noteq> LISTARRAY_ENTRY_NULL"
  by (simp_all add: tc_macro)

lemma DEAD_not_in_range [simp]: "\<not> la_in_range LISTARRAY_ENTRY_DEAD"
  by (simp add: tc_macro)

lemma la_rep_member_alive:
  assumes "la_rep la xs" "x \<in> set xs"
  shows "nxt (entries la x) \<noteq> LISTARRAY_ENTRY_DEAD" "prv (entries la x) \<noteq> LISTARRAY_ENTRY_DEAD"
  using assms dll_nxt[of "entries la" LISTARRAY_ENTRY_NULL xs LISTARRAY_ENTRY_NULL x]
    dll_prv[of "entries la" LISTARRAY_ENTRY_NULL xs LISTARRAY_ENTRY_NULL x]
  by (auto simp: la_rep_def)

subsection \<open>Insertion\<close>

lemma listarray_insert_BugOn:
  assumes "la_rep la xs" "i \<in> set xs"
  shows "listarray_insert la i = Inl BugOn"
  using assms la_rep_member_alive[OF assms] la_rep_in_range[OF assms]
  by (simp add: listarray_insert_def listarray_getentry_def)

lemma listarray_insert_empty:
  assumes "la_rep la []" "la_in_range i"
  shows "\<exists>la'. listarray_insert la i = Inr la' \<and> la_rep la' [i]"
  using assms
  by (auto simp: la_rep_def listarray_insert_def listarray_getentry_def la_set_next_def
      la_set_prev_def Let_def)

lemma listarray_insert_snoc:
  assumes "la_rep la (as @ [t])" "la_in_range i" "i \<notin> set (as @ [t])"
  shows "\<exists>la'. listarray_insert la i = Inr la' \<and> la_rep la' ((as @ [t]) @ [i])"
  using assms
  by (auto simp: la_rep_def listarray_insert_def listarray_getentry_def la_set_next_def
      la_set_prev_def Let_def dll_append hd_append)

lemma listarray_insert_refines:
  assumes "la_rep la xs" "la_in_range i" "i \<notin> set xs"
  shows "\<exists>la'. listarray_insert la i = Inr la' \<and> la_rep la' (xs @ [i])"
  using assms listarray_insert_empty[of la i] listarray_insert_snoc[of la "butlast xs" "last xs" i]
  by (cases "xs = []") simp_all

subsection \<open>Removal\<close>

lemmas la_ops = listarray_insert_def listarray_remove_def listarray_getentry_def
  la_set_next_def la_set_prev_def Let_def

lemma listarray_remove_only:
  "la_rep la [i] \<Longrightarrow> \<exists>la'. listarray_remove la i = Inr la' \<and> la_rep la' []"
  by (simp add: la_rep_def la_ops)

lemma listarray_remove_head:
  "la_rep la (i # b # bs) \<Longrightarrow>
   \<exists>la'. listarray_remove la i = Inr la' \<and> la_rep la' (b # bs)"
  by (auto simp: la_rep_def la_ops)

lemma listarray_remove_tail:
  "la_rep la (as @ [a, i]) \<Longrightarrow>
   \<exists>la'. listarray_remove la i = Inr la' \<and> la_rep la' (as @ [a])"
  by (auto simp: la_rep_def la_ops dll_append hd_append)

lemma listarray_remove_middle:
  "la_rep la (as @ [a, i] @ b # bs) \<Longrightarrow>
   \<exists>la'. listarray_remove la i = Inr la' \<and> la_rep la' (as @ [a] @ b # bs)"
  by (auto simp: la_rep_def la_ops dll_append hd_append)

lemma listarray_remove_split:
  assumes rep: "la_rep la (as @ i # bs)"
  shows "\<exists>la'. listarray_remove la i = Inr la' \<and> la_rep la' (as @ bs)"
proof (cases as rule: rev_cases)
  case Nil
  then show ?thesis
    using rep by (cases bs) (auto intro: listarray_remove_only listarray_remove_head)
next
  case (snoc as' a)
  then show ?thesis
    using rep listarray_remove_tail[of la as' a i] listarray_remove_middle[of la as' a i]
    by (cases bs) auto
qed

lemma listarray_remove_refines:
  assumes rep: "la_rep la xs" and mem: "i \<in> set xs"
  shows "\<exists>la'. listarray_remove la i = Inr la' \<and> la_rep la' (remove1 i xs)"
proof -
  from mem obtain as bs where xs: "xs = as @ i # bs" and "i \<notin> set as"
    by (metis split_list_first)
  then show ?thesis
    using rep listarray_remove_split[of la as i bs] by (simp add: remove1_append)
qed

lemma listarray_remove_nonmember:
  assumes "la_rep la xs" "i \<notin> set xs" "la_in_range i"
  shows "listarray_remove la i = Inl (if xs = [] then BugOn else OutOfBounds)"
  using assms
  by (auto simp: la_rep_def listarray_remove_def listarray_getentry_def la_set_next_def)

subsection \<open>The walk ends and visits the list\<close>

lemma la_walk_seg:
  "dll (entries la) p xs LISTARRAY_ENTRY_NULL \<Longrightarrow> \<forall>x\<in>set xs. la_in_range x \<Longrightarrow>
   length xs \<le> fuel \<Longrightarrow>
   la_walk fuel la (if xs = [] then LISTARRAY_ENTRY_NULL else hd xs) = Inr xs"
proof (induction xs arbitrary: p fuel)
  case Nil
  then show ?case by (simp add: la_walk.simps)
next
  case (Cons x xs)
  then obtain f where "fuel = Suc f" by (cases fuel) auto
  with Cons show ?case
    by (subst la_walk.simps) (auto simp: listarray_getentry_def)
qed

lemma la_in_range_set: "{i. la_in_range i} = {0..<4096}"
  by (auto simp: tc_macro)

lemma la_rep_length: "la_rep la xs \<Longrightarrow> length xs \<le> 4096"
proof -
  assume rep: "la_rep la xs"
  then have "card (set xs) \<le> card {0..<4096::int}"
    by (intro card_mono) (auto simp: la_rep_def tc_macro)
  with rep show ?thesis by (simp add: la_rep_def distinct_card)
qed

lemma listarray_foreach_refines:
  assumes "la_rep la xs"
  shows "listarray_foreach la = Inr xs"
  using la_walk_seg[of la LISTARRAY_ENTRY_NULL xs 4096] la_rep_length[OF assms] assms
  by (simp add: listarray_foreach_def la_rep_def LISTARRAY_MAX_SIZE_def)

lemma listarray_count_refines: "la_rep la xs \<Longrightarrow> listarray_count la = int (length xs)"
  by (simp add: la_rep_def listarray_count_def)

lemma la_rep_distinct: "la_rep la xs \<Longrightarrow> distinct xs"
  by (simp add: la_rep_def)

lemma la_rep_max_index: "la_rep la xs \<Longrightarrow> x \<in> set xs \<Longrightarrow> x \<le> max_index la"
  by (simp add: la_rep_def)

lemma la_rep_unique: "la_rep la xs \<Longrightarrow> la_rep la ys \<Longrightarrow> xs = ys"
  by (metis listarray_foreach_refines Inr_inject)

lemma listarray_in_list_iff:
  assumes "la_rep la xs" "la_in_range i"
  shows "listarray_in_list la i = Inr (i \<in> set xs)"
  using assms la_rep_member_alive[OF assms(1), of i]
  by (auto simp: listarray_in_list_def listarray_getentry_def la_rep_def)

subsection \<open>Removing what was inserted\<close>

lemma entry_upd_both [simp]:
  "(e :: listarray_entry)\<lparr>prv := a, nxt := b\<rparr> = \<lparr>nxt = b, prv = a\<rparr>"
  "(e :: listarray_entry)\<lparr>nxt := b, prv := a\<rparr> = \<lparr>nxt = b, prv = a\<rparr>"
  by (cases e; simp)+

lemma entry_dead_eq:
  "nxt e = LISTARRAY_ENTRY_DEAD \<Longrightarrow> prv e = LISTARRAY_ENTRY_DEAD \<Longrightarrow>
   \<lparr>nxt = LISTARRAY_ENTRY_DEAD, prv = LISTARRAY_ENTRY_DEAD\<rparr> = e"
  by simp

lemma listarray_insert_empty_eq:
  assumes "la_rep la []" "la_in_range i"
  shows "listarray_insert la i =
    Inr (la\<lparr>entries := (entries la)(i := \<lparr>nxt = LISTARRAY_ENTRY_NULL, prv = LISTARRAY_ENTRY_NULL\<rparr>),
            head := i, tail := i, la_count := 1, max_index := max (max_index la) i\<rparr>)"
  using assms by (cases la) (auto simp: la_rep_def la_ops max_def)

lemma listarray_insert_snoc_eq:
  assumes "la_rep la (as @ [t])" "la_in_range i" "i \<notin> set (as @ [t])"
  shows "listarray_insert la i =
    Inr (la\<lparr>entries := (entries la)(t := (entries la t)\<lparr>nxt := i\<rparr>,
                         i := \<lparr>nxt = LISTARRAY_ENTRY_NULL, prv = t\<rparr>),
            tail := i, la_count := la_count la + 1, max_index := max (max_index la) i\<rparr>)"
  using assms
  by (cases la) (auto simp: la_rep_def la_ops max_def fun_upd_twist dll_append)

lemma listarray_remove_insert_empty:
  assumes "la_rep la []" "la_in_range i" "listarray_insert la i = Inr la'"
  shows "listarray_remove la' i = Inr (la\<lparr>max_index := max (max_index la) i\<rparr>)"
proof -
  from assms have la': "la' = la\<lparr>entries := (entries la)(i := \<lparr>nxt = LISTARRAY_ENTRY_NULL, prv = LISTARRAY_ENTRY_NULL\<rparr>),
            head := i, tail := i, la_count := 1, max_index := max (max_index la) i\<rparr>"
    by (simp add: listarray_insert_empty_eq)
  show ?thesis
    unfolding la' using assms(1,2) by (cases la) (simp add: la_rep_def la_ops entry_dead_eq fun_upd_idem)
qed

lemma listarray_remove_insert_snoc:
  assumes "la_rep la (as @ [t])" "la_in_range i" "i \<notin> set (as @ [t])"
    and "listarray_insert la i = Inr la'"
  shows "listarray_remove la' i = Inr (la\<lparr>max_index := max (max_index la) i\<rparr>)"
proof -
  from assms have la': "la' = la\<lparr>entries := (entries la)(t := (entries la t)\<lparr>nxt := i\<rparr>,
                         i := \<lparr>nxt = LISTARRAY_ENTRY_NULL, prv = t\<rparr>),
            tail := i, la_count := la_count la + 1, max_index := max (max_index la) i\<rparr>"
    by (simp add: listarray_insert_snoc_eq)
  have t: "t \<noteq> LISTARRAY_ENTRY_NULL" "la_in_range t" "t \<noteq> i" "tail la = t" 
     "nxt (entries la t) = LISTARRAY_ENTRY_NULL" "0 \<le> la_count la"
    and i: "nxt (entries la i) = LISTARRAY_ENTRY_DEAD" "prv (entries la i) = LISTARRAY_ENTRY_DEAD"
    using assms by (auto simp: la_rep_def dll_append)
  have e: "(entries la t)\<lparr>nxt := LISTARRAY_ENTRY_NULL\<rparr> = entries la t" 
    using t(5) by simp
  show ?thesis
    unfolding la' using assms(2) t i e
    by (cases la) (simp add: la_ops entry_dead_eq fun_upd_idem fun_upd_twist)
qed

lemma listarray_remove_insert:
  assumes "la_rep la xs" "la_in_range i" "i \<notin> set xs" "listarray_insert la i = Inr la'"
  shows "listarray_remove la' i = Inr (la\<lparr>max_index := max (max_index la) i\<rparr>)"
  using assms listarray_remove_insert_empty[of la i la']
    listarray_remove_insert_snoc[of la "butlast xs" "last xs" i la']
  by (cases "xs = []") simp_all

subsection \<open>The interface the clock code uses\<close>

text \<open>
  What the callers of the list rely on: a representation relation, and the laws of the
  five operations over it. The lemmas proved here are the ones the clock code's
  invariant uses.
\<close>

locale active_set =
  fixes init :: 'l
    and ins :: "'l \<Rightarrow> int \<Rightarrow> 'l result"
    and del :: "'l \<Rightarrow> int \<Rightarrow> 'l result"
    and walk :: "'l \<Rightarrow> int list result"
    and size_of :: "'l \<Rightarrow> int"
    and rep :: "'l \<Rightarrow> int list \<Rightarrow> bool"
    and valid :: "int \<Rightarrow> bool"
  assumes rep_init: "rep init []"
    and rep_ins: "rep l xs \<Longrightarrow> valid i \<Longrightarrow> i \<notin> set xs \<Longrightarrow> \<exists>l'. ins l i = Inr l' \<and> rep l' (xs @ [i])"
    and ins_member: "rep l xs \<Longrightarrow> i \<in> set xs \<Longrightarrow> ins l i = Inl BugOn"
    and rep_del: "rep l xs \<Longrightarrow> i \<in> set xs \<Longrightarrow> \<exists>l'. del l i = Inr l' \<and> rep l' (remove1 i xs)"
    and del_absent: "rep l xs \<Longrightarrow> valid i \<Longrightarrow> i \<notin> set xs \<Longrightarrow> \<exists>e. del l i = Inl e"
    and walk_rep: "rep l xs \<Longrightarrow> walk l = Inr xs"
    and size_rep: "rep l xs \<Longrightarrow> size_of l = int (length xs)"
begin

lemma rep_fun: "rep l xs \<Longrightarrow> rep l ys \<Longrightarrow> xs = ys"
  by (metis walk_rep Inr_inject)

lemma ins_ok_iff: "rep l xs \<Longrightarrow> valid i \<Longrightarrow> (\<exists>l'. ins l i = Inr l') \<longleftrightarrow> i \<notin> set xs"
  using rep_ins ins_member by fastforce

lemma ins_Inr: "rep l xs \<Longrightarrow> valid i \<Longrightarrow> ins l i = Inr l' \<Longrightarrow> i \<notin> set xs \<and> rep l' (xs @ [i])"
  using rep_ins ins_member by fastforce

lemma del_ok_iff: "rep l xs \<Longrightarrow> valid i \<Longrightarrow> (\<exists>l'. del l i = Inr l') \<longleftrightarrow> i \<in> set xs"
  using rep_del del_absent by fastforce

lemma del_Inr: "rep l xs \<Longrightarrow> valid i \<Longrightarrow> del l i = Inr l' \<Longrightarrow> i \<in> set xs \<and> rep l' (remove1 i xs)"
  using rep_del del_absent by fastforce

lemma size_one_member:
  "rep l xs \<Longrightarrow> size_of l = 1 \<Longrightarrow> i \<in> set xs \<Longrightarrow> xs = [i]"
  by (auto simp: size_rep length_Suc_conv)

end

interpretation la: active_set listarray_init listarray_insert listarray_remove
  listarray_foreach listarray_count la_rep la_in_range
  by unfold_locales
    (use la_rep_init listarray_insert_refines listarray_insert_BugOn listarray_remove_refines
      listarray_remove_nonmember listarray_foreach_refines listarray_count_refines in blast)+

subsection \<open>Runs of operations\<close>

datatype la_op = LaInsert int | LaRemove int

fun la_step :: "listarray \<Rightarrow> la_op \<Rightarrow> listarray result" where
  "la_step la (LaInsert i) = listarray_insert la i"
| "la_step la (LaRemove i) = listarray_remove la i"

fun la_run :: "listarray \<Rightarrow> la_op list \<Rightarrow> listarray result" where
  "la_run la [] = Inr la"
| "la_run la (op # ops) = bindE (la_step la op) (\<lambda>la. la_run la ops)"

text \<open>The abstract list: \<open>None\<close> where the operation is not allowed.\<close>

fun abs_step :: "int list \<Rightarrow> la_op \<Rightarrow> int list option" where
  "abs_step xs (LaInsert i) = (if la_in_range i \<and> i \<notin> set xs then Some (xs @ [i]) else None)"
| "abs_step xs (LaRemove i) = (if i \<in> set xs then Some (remove1 i xs) else None)"

fun abs_run :: "int list \<Rightarrow> la_op list \<Rightarrow> int list option" where
  "abs_run xs [] = Some xs"
| "abs_run xs (op # ops) = Option.bind (abs_step xs op) (\<lambda>xs. abs_run xs ops)"

lemma listarray_insert_out_of_range: "\<not> la_in_range i \<Longrightarrow> listarray_insert la i = Inl OutOfBounds"
  by (simp add: listarray_insert_def listarray_getentry_def)

lemma listarray_remove_out_of_range: "\<not> la_in_range i \<Longrightarrow> \<exists>e. listarray_remove la i = Inl e"
  by (simp add: listarray_remove_def listarray_getentry_def)

lemma la_step_refines:
  assumes "la_rep la xs"
  shows "case abs_step xs op of
           Some ys \<Rightarrow> \<exists>la'. la_step la op = Inr la' \<and> la_rep la' ys
         | None \<Rightarrow> \<exists>e. la_step la op = Inl e"
proof (cases op)
  case (LaInsert i)
  then show ?thesis
    using assms la.rep_ins[of la xs i] la.ins_member[of la xs i]
      listarray_insert_out_of_range[of i la] by auto
next
  case (LaRemove i)
  then show ?thesis
    using assms la.rep_del[of la xs i] la.del_absent[of la xs i]
      listarray_remove_out_of_range[of i la] by auto
qed

lemma la_run_refines_aux:
  assumes "la_rep la xs"
  shows "case abs_run xs ops of
           Some ys \<Rightarrow> \<exists>la'. la_run la ops = Inr la' \<and> la_rep la' ys
         | None \<Rightarrow> \<exists>e. la_run la ops = Inl e"
  using assms
proof (induction ops arbitrary: la xs)
  case Nil
  then show ?case by simp
next
  case (Cons op ops)
  note step = la_step_refines[OF Cons.prems, of op]
  show ?case
  proof (cases "abs_step xs op")
    case None
    with step show ?thesis by auto
  next
    case (Some ys)
    with step obtain la' where la': "la_step la op = Inr la'" "la_rep la' ys"
      by auto
    from Cons.IH[OF la'(2)] la'(1) Some show ?thesis by (simp split: option.splits)
  qed
qed


subsection \<open>Array lists built by insertion\<close>

definition active_list :: "int list \<Rightarrow> listarray" where
  "active_list xs =
     fold (\<lambda>i la. case listarray_insert la i of Inl e \<Rightarrow> la | Inr la' \<Rightarrow> la') xs listarray_init"

lemma active_list_rep:
  "distinct xs \<Longrightarrow> \<forall>i\<in>set xs. la_in_range i \<Longrightarrow> la_rep (active_list xs) xs"
proof (induction xs rule: rev_induct)
  case Nil
  then show ?case by (simp add: active_list_def la.rep_init)
next
  case (snoc x xs)
  then have "la_rep (active_list xs) xs" by simp
  from la.rep_ins[OF this, of x] snoc.prems obtain la' where
    "listarray_insert (active_list xs) x = Inr la'" "la_rep la' (xs @ [x])" by auto
  then show ?case by (simp add: active_list_def)
qed

subsection \<open>The values fit their C types\<close>

text \<open>
  \<open>listarray_entry_ptr_t\<close> is \<open>int16_t\<close>, while indices are \<open>int\<close>s: every assignment to a link
  cuts the value to 16 bits.
\<close>

definition fits_ptr_t :: "int \<Rightarrow> bool" where
  "fits_ptr_t v \<longleftrightarrow> sint (word_of_int v :: 16 word) = v"

lemma fits_ptr_tI: "- (2 ^ 15) \<le> v \<Longrightarrow> v < 2 ^ 15 \<Longrightarrow> fits_ptr_t v"
  by (simp add: fits_ptr_t_def signed_of_int signed_take_bit_int_eq_self)

definition la_link :: "int \<Rightarrow> bool" where
  "la_link v \<longleftrightarrow> v = LISTARRAY_ENTRY_NULL \<or> v = LISTARRAY_ENTRY_DEAD \<or> la_in_range v"

lemma la_link_fits: "la_link v \<Longrightarrow> fits_ptr_t v"
  by (rule fits_ptr_tI) (auto simp: la_link_def tc_macro)

lemma la_rep_ends:
  assumes "la_rep la xs"
  shows "head la = LISTARRAY_ENTRY_NULL \<or> la_in_range (head la)"
    "tail la = LISTARRAY_ENTRY_NULL \<or> la_in_range (tail la)"
  using assms by (auto simp: la_rep_def)

lemma la_rep_links:
  assumes "la_rep la xs" "la_in_range i"
  shows "la_link (nxt (entries la i))" "la_link (prv (entries la i))"
  using assms dll_nxt[of "entries la" LISTARRAY_ENTRY_NULL xs LISTARRAY_ENTRY_NULL i]
    dll_prv[of "entries la" LISTARRAY_ENTRY_NULL xs LISTARRAY_ENTRY_NULL i]
  by (auto simp: la_rep_def la_link_def)

lemma la_run_rep: "la_run listarray_init ops = Inr la \<Longrightarrow> \<exists>xs. la_rep la xs"
  using la_run_refines_aux[OF la.rep_init, of ops] by (auto split: option.splits)

subsection \<open>Properties of the list array\<close>

lemma listarray_insert_max_index:
  assumes "la_rep la xs" "la_in_range i" "i \<notin> set xs" "listarray_insert la i = Inr la'"
  shows "max_index la' = max (max_index la) i"
  using assms listarray_insert_empty_eq[of la i] listarray_insert_snoc_eq[of la "butlast xs" "last xs" i]
  by (cases "xs = []") auto

lemma listarray_in_list_spec:
  assumes "la_rep la xs"
  shows "listarray_in_list la i = (if la_in_range i then Inr (i \<in> set xs) else Inl OutOfBounds)"
  using listarray_in_list_iff[OF assms]
  by (auto simp: listarray_in_list_def listarray_getentry_def)

text \<open>
  Inserting into a list array that holds \<open>xs\<close> fails when the index is outside
  the array, hits the \<open>BUG_ON\<close> when the index is in the list already, and otherwise
  appends the index at the tail and raises \<open>max_index\<close> to it where needed.
\<close>

theorem listarray_insert_spec:
  assumes "la_rep la xs"
  shows "if \<not> la_in_range i then listarray_insert la i = Inl OutOfBounds
         else if i \<in> set xs then listarray_insert la i = Inl BugOn
         else \<exists>la'. listarray_insert la i = Inr la' \<and> la_rep la' (xs @ [i]) \<and>
                max_index la' = max (max_index la) i"
  using assms la.rep_ins[of la xs i] la.ins_member[of la xs i] listarray_insert_out_of_range[of i la]
    listarray_insert_max_index[of la xs i]
  by auto

theorem listarray_insert_spec_witness:
  "\<exists>la'. listarray_insert listarray_init 7 = Inr la' \<and> la_rep la' [7] \<and> max_index la' = 7"
  using listarray_insert_spec[OF la.rep_init, of 7] by (simp add: tc_macro listarray_init_def)

text \<open>
  Removing an index from a list array that holds \<open>xs\<close> takes exactly that
  index out and keeps the others in order; an index that is not in the list is never
  removed silently: the \<open>BUG_ON\<close> fires when the list is empty, and otherwise the unlinking
  follows the dead marker out of the array.
\<close>

theorem listarray_remove_spec:
  assumes "la_rep la xs" "la_in_range i"
  shows "if i \<in> set xs then \<exists>la'. listarray_remove la i = Inr la' \<and> la_rep la' (remove1 i xs)
         else listarray_remove la i = Inl (if xs = [] then BugOn else OutOfBounds)"
  using assms la.rep_del[of la xs i] listarray_remove_nonmember[of la xs i] by auto

theorem listarray_remove_spec_witness:
  "listarray_remove listarray_init 7 = Inl BugOn"
  using listarray_remove_spec[OF la.rep_init, of 7] by (simp add: tc_macro)

text \<open>
  C20: from the empty list array, every sequence of insertions and removals does what
  the same sequence does to a list without duplicates: it fails exactly where the abstract
  sequence is not allowed, and otherwise the walk ends and visits exactly the abstract list in
  order, the count is its length, and membership is its membership.
\<close>

theorem listarray_run_refines:
  "case abs_run [] ops of
     Some ys \<Rightarrow> \<exists>la'. la_run listarray_init ops = Inr la' \<and> listarray_foreach la' = Inr ys \<and>
       listarray_count la' = int (length ys) \<and> distinct ys \<and>
       (\<forall>i. listarray_in_list la' i = (if la_in_range i then Inr (i \<in> set ys) else Inl OutOfBounds))
   | None \<Rightarrow> \<exists>e. la_run listarray_init ops = Inl e"
  using la_run_refines_aux[OF la.rep_init, of ops]
  by (auto simp: la.walk_rep la.size_rep listarray_in_list_spec dest: la_rep_distinct split: option.splits)

text \<open>
  Removing what was just inserted gives the list array back, every entry
  included, except that \<open>max_index\<close> stays raised.
\<close>

lemma listarray_remove_undoes_insert:
  assumes "la_rep la xs" "la_in_range i" "i \<notin> set xs"
  shows "bindE (listarray_insert la i) (\<lambda>la'. listarray_remove la' i) =
         Inr (la\<lparr>max_index := max (max_index la) i\<rparr>)"
  using la.rep_ins[OF assms] listarray_remove_insert[OF assms] by auto

lemma listarray_remove_undoes_insert_witness:
  "bindE (listarray_insert listarray_init 9) (\<lambda>la'. listarray_remove la' 9) =
   Inr (listarray_init\<lparr>max_index := 9\<rparr>)"
  using listarray_remove_undoes_insert[OF la.rep_init, of 9] by (simp add: tc_macro listarray_init_def)

text \<open>
  C21: whatever sequence of insertions and removals has run, every link of the array
  is the null pointer, the dead marker or an index of the array, head and tail are never dead,
  the count and \<open>max_index\<close> stay within the array's size, and so no assignment to a 16-bit
  link has ever lost a bit.
\<close>

theorem listarray_values_fit:
  assumes "la_run listarray_init ops = Inr la"
  shows "(\<forall>i. la_in_range i \<longrightarrow>
            la_link (nxt (entries la i)) \<and> fits_ptr_t (nxt (entries la i)) \<and>
            la_link (prv (entries la i)) \<and> fits_ptr_t (prv (entries la i))) \<and>
         fits_ptr_t (head la) \<and> fits_ptr_t (tail la) \<and>
         head la \<noteq> LISTARRAY_ENTRY_DEAD \<and> tail la \<noteq> LISTARRAY_ENTRY_DEAD \<and>
         0 \<le> la_count la \<and> la_count la \<le> LISTARRAY_MAX_SIZE \<and> la_in_range (max_index la)"
proof -
  from la_run_rep[OF assms] obtain xs where rep: "la_rep la xs" ..
  note ends = la_rep_ends[OF rep]
  then have "la_link (head la)" "la_link (tail la)" by (auto simp: la_link_def)
  moreover have "0 \<le> la_count la \<and> la_count la \<le> LISTARRAY_MAX_SIZE \<and> la_in_range (max_index la)"
    using rep la_rep_length[OF rep] by (simp add: la_rep_def LISTARRAY_MAX_SIZE_def)
  ultimately show ?thesis using ends la_rep_links[OF rep] by (auto intro: la_link_fits)
qed

theorem listarray_values_fit_witness:
  "\<exists>la. la_run listarray_init [LaInsert 3, LaInsert 4095, LaRemove 3] = Inr la \<and>
     head la = 4095 \<and> fits_ptr_t (head la) \<and> fits_ptr_t (tail la)"
proof -
  have "\<exists>la. la_run listarray_init [LaInsert 3, LaInsert 4095, LaRemove 3] = Inr la \<and> head la = 4095"
    by (simp add: la_ops listarray_init_def tc_macro)
  then obtain la where la: "la_run listarray_init [LaInsert 3, LaInsert 4095, LaRemove 3] = Inr la"
    and h: "head la = 4095" by blast
  from listarray_values_fit[OF la] have "fits_ptr_t (head la) \<and> fits_ptr_t (tail la)" by (elim conjE) (intro conjI)
  with la h show ?thesis by blast
qed

end
