(* ===== verification/TC_State.thy ===== *)
theory TC_State
  imports ListArray
begin

text \<open>
  The state the kernel module keeps, and the macros of \<open>src/src/module/utility.h\<close> and
  \<open>bounded_tso.h\<close> that read and write it. The structs \<open>task_clock_group_info\<close>,
  \<open>task_clock_entry_info\<close>, \<open>perf_event\<close> and \<open>hw_perf_event\<close> are declared in the
  patched kernel's headers: the records below hold the fields that the module's source
  reads or writes. Fields that the source only ever sets to 0 or 1 are \<open>bool\<close>; clocks
  and counters are 64-bit words.
\<close>

unbundle bit_operations_syntax

subsection \<open>Build options and the environment of one call\<close>

text \<open>
  \<open>config\<close>: the build options (\<open>-DUSE_BOUNDED_FENCE\<close>, \<open>-DUSE_ADAPTIVE_OVERFLOW_PERIOD\<close>,
  \<open>-DNO_INSTRUCTION_COUNTING\<close>) and \<open>TASK_CLOCK_MAX_THREADS\<close>, a constant of the kernel's
  header. \<open>env\<close> adds what one call finds around it: the id of the running thread, whether
  it is in an NMI, what an uninitialised local array happens to hold, the value the
  performance counter shows, and the reads that an NMI overtook (the counter's value, the
  \<open>prev_count\<close> that the NMI left and what it added to the event's count), each of which makes
  the \<open>cmpxchg\<close> loop go round once.
\<close>

record config =
  use_bounded_fence :: bool
  use_adaptive_overflow_period :: bool
  no_instruction_counting :: bool
  task_clock_max_threads :: int

record env = config +
  cur :: tid
  in_nmi :: bool
  thread_arr :: "int \<Rightarrow> u32"
  rdmsr :: u64
  rdmsr_retry :: "(u64 \<times> u64 \<times> u64) list"

subsection \<open>Events, entries, user status\<close>

record hw_perf_event =
  sample_period :: u64
  period_left :: u64
  prev_count :: u64
  pmc :: u64

record perf_event =
  ev_count :: u64
  hw :: hw_perf_event
  last_written :: u64
  buffer_poll :: bool

record task_clock_entry_info =
  initialized :: bool
  waiting :: bool
  sleeping :: bool
  inactive :: bool
  ticks :: u64
  base_ticks :: u64
  chunk_ticks :: u64
  count_ticks :: u64
  userspace_reading :: bool
  event :: perf_event
  debug_last_overflow_ticks :: u64
  debug_last_enable_ticks :: u64

text \<open>\<open>struct task_clock_user_status\<close> of \<open>src/src/lib/determ_clock.h\<close>, with its widths.\<close>

record task_clock_user_status =
  us_lowest_clock :: u64
  us_ticks :: u64
  us_notifying_clock :: u64
  us_notifying_id :: u64
  us_notifying_sample :: u64
  us_notifying_diff :: u64
  us_single_active_thread :: u8
  us_activated_lowest :: u8
  us_scaling_whole :: u8
  us_scaling_fraction :: u8
  us_hwc_idx :: u32
  us_period_sets :: u64
  us_hit_bounded_fence :: u64

definition zero_user_status :: task_clock_user_status where
  "zero_user_status =
     \<lparr>us_lowest_clock = 0, us_ticks = 0, us_notifying_clock = 0, us_notifying_id = 0,
      us_notifying_sample = 0, us_notifying_diff = 0, us_single_active_thread = 0,
      us_activated_lowest = 0, us_scaling_whole = 0, us_scaling_fraction = 0,
      us_hwc_idx = 0, us_period_sets = 0, us_hit_bounded_fence = 0\<rparr>"

subsection \<open>The group and the machine\<close>

text \<open>
  What the module asks the kernel to do (wake a wait queue, queue interrupt work, send
  \<open>SIGUSR1\<close>) is recorded in order in \<open>effects\<close>.
\<close>

datatype effect = WakeUpAll tid | IrqWorkQueue | ForceSig tid

text \<open>
  \<open>user_status_arr\<close> is \<open>None\<close> for \<open>NULL\<close>, and otherwise the offset of the array from the
  start of the one page that is mapped. \<open>ustat\<close> is the user page itself: the module writes
  to it both through \<open>current->task_clock.user_status\<close> and through \<open>user_status_arr\<close>.
\<close>

record group_info =
  clocks :: "tid \<Rightarrow> task_clock_entry_info"
  lowest_tid :: tid
  lowest_ticks :: u64
  notification_needed :: bool
  nmi_new_low :: bool
  user_status_arr :: "nat option"
  active_threads :: listarray

record kstate = group_info +
  ustat :: "tid \<Rightarrow> task_clock_user_status"
  task_regs :: "tid \<Rightarrow> u64"
  effects :: "effect list"
  start_counter :: u32

text \<open>Writing a field of \<open>group_info->clocks[i]\<close> and of a thread's user status.\<close>

definition upd_clock ::
  "tid \<Rightarrow> (task_clock_entry_info \<Rightarrow> task_clock_entry_info) \<Rightarrow> kstate \<Rightarrow> kstate" where
  "upd_clock i f s = s\<lparr>clocks := (clocks s)(i := f (clocks s i))\<rparr>"

definition upd_ustat ::
  "tid \<Rightarrow> (task_clock_user_status \<Rightarrow> task_clock_user_status) \<Rightarrow> kstate \<Rightarrow> kstate" where
  "upd_ustat i f s = s\<lparr>ustat := (ustat s)(i := f (ustat s i))\<rparr>"

definition upd_event :: "tid \<Rightarrow> (perf_event \<Rightarrow> perf_event) \<Rightarrow> kstate \<Rightarrow> kstate" where
  "upd_event i f = upd_clock i (\<lambda>e. e\<lparr>event := f (event e)\<rparr>)"

definition upd_hw :: "tid \<Rightarrow> (hw_perf_event \<Rightarrow> hw_perf_event) \<Rightarrow> kstate \<Rightarrow> kstate" where
  "upd_hw i f = upd_event i (\<lambda>p. p\<lparr>hw := f (hw p)\<rparr>)"

definition emit :: "effect \<Rightarrow> kstate \<Rightarrow> kstate" where
  "emit x s = s\<lparr>effects := effects s @ [x]\<rparr>"

lemma upd_clock_sel [simp]:
  "clocks (upd_clock i f s) j = (if j = i then f (clocks s i) else clocks s j)"
  "lowest_tid (upd_clock i f s) = lowest_tid s"
  "lowest_ticks (upd_clock i f s) = lowest_ticks s"
  "notification_needed (upd_clock i f s) = notification_needed s"
  "nmi_new_low (upd_clock i f s) = nmi_new_low s"
  "user_status_arr (upd_clock i f s) = user_status_arr s"
  "active_threads (upd_clock i f s) = active_threads s"
  "ustat (upd_clock i f s) = ustat s"
  "task_regs (upd_clock i f s) = task_regs s"
  "effects (upd_clock i f s) = effects s"
  "start_counter (upd_clock i f s) = start_counter s"
  by (simp_all add: upd_clock_def)

lemma upd_clock_idem: "f (clocks s i) = clocks s i \<Longrightarrow> upd_clock i f s = s"
  by (simp add: upd_clock_def)

lemma upd_clock_twice [simp]: "upd_clock i f (upd_clock i g s) = upd_clock i (\<lambda>e. f (g e)) s"
  by (simp add: upd_clock_def)

lemma upd_ustat_sel [simp]:
  "ustat (upd_ustat i g s) j = (if j = i then g (ustat s i) else ustat s j)"
  "clocks (upd_ustat i g s) = clocks s"
  "lowest_tid (upd_ustat i g s) = lowest_tid s"
  "lowest_ticks (upd_ustat i g s) = lowest_ticks s"
  "notification_needed (upd_ustat i g s) = notification_needed s"
  "nmi_new_low (upd_ustat i g s) = nmi_new_low s"
  "user_status_arr (upd_ustat i g s) = user_status_arr s"
  "active_threads (upd_ustat i g s) = active_threads s"
  "task_regs (upd_ustat i g s) = task_regs s"
  "effects (upd_ustat i g s) = effects s"
  "start_counter (upd_ustat i g s) = start_counter s"
  by (simp_all add: upd_ustat_def)

lemma emit_sel [simp]:
  "clocks (emit x s) = clocks s"
  "lowest_tid (emit x s) = lowest_tid s"
  "lowest_ticks (emit x s) = lowest_ticks s"
  "notification_needed (emit x s) = notification_needed s"
  "nmi_new_low (emit x s) = nmi_new_low s"
  "user_status_arr (emit x s) = user_status_arr s"
  "active_threads (emit x s) = active_threads s"
  "ustat (emit x s) = ustat s"
  "task_regs (emit x s) = task_regs s"
  "effects (emit x s) = effects s @ [x]"
  "start_counter (emit x s) = start_counter s"
  by (simp_all add: emit_def)

subsection \<open>The macros of \<open>utility.h\<close>\<close>

definition tc_min :: "u64 \<Rightarrow> u64 \<Rightarrow> u64" where
  "tc_min val1 val2 = (if val1 < val2 then val1 else val2)"

definition tc_max :: "u64 \<Rightarrow> u64 \<Rightarrow> u64" where
  "tc_max val1 val2 = (if val1 > val2 then val1 else val2)"

definition set_base_ticks :: "kstate \<Rightarrow> tid \<Rightarrow> u64 \<Rightarrow> kstate" where
  [tc_macro]: "set_base_ticks s i val = upd_clock i (\<lambda>e. e\<lparr>base_ticks := val\<rparr>) s"

definition get_base_ticks :: "kstate \<Rightarrow> tid \<Rightarrow> u64" where
  [tc_macro]: "get_base_ticks s i = base_ticks (clocks s i)"

definition tick_counter_turn_off :: "env \<Rightarrow> kstate \<Rightarrow> kstate" where
  [tc_macro]: "tick_counter_turn_off E = upd_clock (cur E) (\<lambda>e. e\<lparr>count_ticks := 0\<rparr>)"

definition tick_counter_turn_on :: "env \<Rightarrow> kstate \<Rightarrow> kstate" where
  [tc_macro]: "tick_counter_turn_on E = upd_clock (cur E) (\<lambda>e. e\<lparr>count_ticks := 1\<rparr>)"

definition tick_counter_is_running :: "env \<Rightarrow> kstate \<Rightarrow> bool" where
  [tc_macro]: "tick_counter_is_running E s \<longleftrightarrow> count_ticks (clocks s (cur E)) \<noteq> 0"

definition inc_clock_ticks_no_chunk_add :: "kstate \<Rightarrow> tid \<Rightarrow> u64 \<Rightarrow> kstate" where
  [tc_macro]: "inc_clock_ticks_no_chunk_add s i val = upd_clock i (\<lambda>e. e\<lparr>ticks := ticks e + val\<rparr>) s"

definition set_clock_ticks :: "kstate \<Rightarrow> tid \<Rightarrow> u64 \<Rightarrow> kstate" where
  [tc_macro]: "set_clock_ticks s i val = upd_clock i (\<lambda>e. e\<lparr>ticks := val\<rparr>) s"

definition get_clock_ticks :: "kstate \<Rightarrow> tid \<Rightarrow> u64" where
  "get_clock_ticks s i = ticks (clocks s i) + base_ticks (clocks s i)"

definition clock_is_lower :: "kstate \<Rightarrow> tid \<Rightarrow> tid \<Rightarrow> bool" where
  "clock_is_lower s i j \<longleftrightarrow>
     get_clock_ticks s i < get_clock_ticks s j \<or>
     get_clock_ticks s i = get_clock_ticks s j \<and> i < j"

definition hit_bounded_fence_disable :: "env \<Rightarrow> kstate \<Rightarrow> kstate" where
  [tc_macro]: "hit_bounded_fence_disable E s =
     (if use_bounded_fence E then upd_ustat (cur E) (\<lambda>u. u\<lparr>us_hit_bounded_fence := 0\<rparr>) s else s)"

definition clear_entry_state :: "env \<Rightarrow> kstate \<Rightarrow> kstate" where
  "clear_entry_state E s =
     hit_bounded_fence_disable E
       (upd_clock (cur E) (\<lambda>e. e\<lparr>inactive := False, waiting := False, sleeping := False\<rparr>) s)"

definition clear_entry_state_by_id :: "env \<Rightarrow> kstate \<Rightarrow> tid \<Rightarrow> kstate" where
  "clear_entry_state_by_id E s i =
     upd_ustat (cur E) (\<lambda>u. u\<lparr>us_hit_bounded_fence := 0\<rparr>)
       (upd_clock i (\<lambda>e. e\<lparr>inactive := False, waiting := False, sleeping := False\<rparr>) s)"

definition mark_as_inactive :: "kstate \<Rightarrow> tid \<Rightarrow> kstate result" where
  "mark_as_inactive s i =
     (let s = upd_clock i (\<lambda>e. e\<lparr>inactive := True\<rparr>) s
      in bindE (listarray_remove (active_threads s) i) (\<lambda>la. Inr (s\<lparr>active_threads := la\<rparr>)))"

definition mark_as_active :: "kstate \<Rightarrow> tid \<Rightarrow> kstate result" where
  "mark_as_active s i =
     (let s = upd_clock i (\<lambda>e. e\<lparr>inactive := False\<rparr>) s
      in bindE (listarray_insert (active_threads s) i) (\<lambda>la. Inr (s\<lparr>active_threads := la\<rparr>)))"

definition current_is_only_active_thread :: "env \<Rightarrow> kstate \<Rightarrow> bool" where
  "current_is_only_active_thread E s \<longleftrightarrow>
     listarray_count (active_threads s) = 1 \<and> \<not> inactive (clocks s (cur E))"

definition reset_chunk_ticks :: "kstate \<Rightarrow> tid \<Rightarrow> kstate" where
  [tc_macro]: "reset_chunk_ticks s i = upd_clock i (\<lambda>e. e\<lparr>chunk_ticks := 0\<rparr>) s"

definition get_chunk_ticks :: "kstate \<Rightarrow> tid \<Rightarrow> u64" where
  [tc_macro]: "get_chunk_ticks s i = chunk_ticks (clocks s i)"

definition valid_tid :: "env \<Rightarrow> tid \<Rightarrow> bool" where
  "valid_tid E i \<longleftrightarrow> 0 \<le> i \<and> i < task_clock_max_threads E"

subsection \<open>The order of the clocks\<close>

text \<open>
  Clock values, ties broken by the thread id, order the threads strictly and totally, so
  a non-empty set of threads has one lowest thread.
\<close>

text \<open>
  The order behind \<open>clock_is_lower\<close>: clock first, thread id second. As an instance of
  \<open>linorder\<close> it brings the library's \<open>Min\<close> and its facts along.
\<close>

datatype clock_key = Clock_Key (key_clock: u64) (key_tid: int)

lemma clock_key_eq_iff: "a = b \<longleftrightarrow> key_clock a = key_clock b \<and> key_tid a = key_tid b"
  by (auto intro: clock_key.expand)

instantiation clock_key :: linorder
begin

definition less_clock_key :: "clock_key \<Rightarrow> clock_key \<Rightarrow> bool" where
  "less_clock_key a b \<longleftrightarrow>
     key_clock a < key_clock b \<or> key_clock a = key_clock b \<and> key_tid a < key_tid b"

definition less_eq_clock_key :: "clock_key \<Rightarrow> clock_key \<Rightarrow> bool" where
  "less_eq_clock_key a b \<longleftrightarrow> a = b \<or> a < (b :: clock_key)"

instance
  by standard (auto simp: less_eq_clock_key_def less_clock_key_def clock_key_eq_iff)

end

definition turn_key :: "kstate \<Rightarrow> tid \<Rightarrow> clock_key" where
  "turn_key s i = Clock_Key (get_clock_ticks s i) i"

lemma key_tid_turn_key [simp]: "key_tid (turn_key s i) = i"
  by (simp add: turn_key_def)

lemma turn_key_eq [simp]: "turn_key s i = turn_key s j \<longleftrightarrow> i = j"
  by (auto simp: turn_key_def)

lemma clock_is_lower_key: "clock_is_lower s i j \<longleftrightarrow> turn_key s i < turn_key s j"
  by (simp add: clock_is_lower_def turn_key_def less_clock_key_def)

lemma clock_is_lower_irrefl: "\<not> clock_is_lower s i i"
  by (simp add: clock_is_lower_key)

lemma clock_is_lower_trans:
  "clock_is_lower s i j \<Longrightarrow> clock_is_lower s j k \<Longrightarrow> clock_is_lower s i k"
  by (simp add: clock_is_lower_key)

lemma clock_is_lower_total: "i \<noteq> j \<Longrightarrow> clock_is_lower s i j \<or> clock_is_lower s j i"
  using neq_iff[of "turn_key s i" "turn_key s j"] by (simp add: clock_is_lower_key)

lemma get_clock_ticks_cong [tc_frame]:
  "clocks s = clocks t \<Longrightarrow> get_clock_ticks s = get_clock_ticks t"
  by (simp add: get_clock_ticks_def fun_eq_iff)

subsection \<open>A concrete machine\<close>

text \<open>
  Blank memory and the calls of thread \<open>i\<close> of a process with two threads: what the
  concrete runs of the development start from.
\<close>

definition zero_event :: perf_event where
  "zero_event = \<lparr>ev_count = 0, hw = \<lparr>sample_period = 0, period_left = 0, prev_count = 0, pmc = 0\<rparr>,
     last_written = 0, buffer_poll = False\<rparr>"

definition zero_entry :: task_clock_entry_info where
  "zero_entry = \<lparr>initialized = False, waiting = False, sleeping = False, inactive = False, ticks = 0,
     base_ticks = 0, chunk_ticks = 0, count_ticks = 0, userspace_reading = False, event = zero_event,
     debug_last_overflow_ticks = 0, debug_last_enable_ticks = 0\<rparr>"

definition zero_state :: kstate where
  "zero_state = \<lparr>clocks = (\<lambda>_. zero_entry), lowest_tid = -1, lowest_ticks = 0,
     notification_needed = False, nmi_new_low = False, user_status_arr = None,
     active_threads = listarray_init, ustat = (\<lambda>_. zero_user_status), task_regs = (\<lambda>_. 0),
     effects = [], start_counter = 0\<rparr>"

definition thread :: "int \<Rightarrow> env" where
  "thread i = \<lparr>use_bounded_fence = False, use_adaptive_overflow_period = False,
     no_instruction_counting = False, task_clock_max_threads = 2, cur = i, in_nmi = False,
     thread_arr = (\<lambda>_. 0), rdmsr = 0, rdmsr_retry = []\<rparr>"

lemmas concrete_defs = zero_event_def zero_entry_def zero_state_def zero_user_status_def thread_def

end
