(* ===== verification/Bounded_TSO.thy ===== *)
theory Bounded_TSO
  imports TC_State
begin

text \<open>
  \<open>src/src/module/bounded_tso.h\<close> and \<open>bounded_tso.c\<close>: the bounded memory fence. When
  a chunk comes within \<open>IMPRECISE_OVERFLOW_BUFFER\<close> instructions of \<open>BOUNDED_CHUNK_SIZE\<close>
  the thread is single stepped, so that the signal that ends the chunk comes after exactly
  \<open>BOUNDED_CHUNK_SIZE\<close> instructions. Without \<open>USE_BOUNDED_FENCE\<close> the macros are empty.
\<close>

subsection \<open>Constants and macros\<close>

definition IMPRECISE_OVERFLOW_BUFFER :: u64 where "IMPRECISE_OVERFLOW_BUFFER = 200"
definition BOUNDED_CHUNK_SIZE :: u64 where "BOUNDED_CHUNK_SIZE = 1024000000"
definition IMPRECISE_BOUNDED_CHUNK_SIZE :: u64 where
  "IMPRECISE_BOUNDED_CHUNK_SIZE = BOUNDED_CHUNK_SIZE - IMPRECISE_OVERFLOW_BUFFER"

lemmas chunk_consts = IMPRECISE_OVERFLOW_BUFFER_def BOUNDED_CHUNK_SIZE_def
  IMPRECISE_BOUNDED_CHUNK_SIZE_def

text \<open>The trap flag of the x86 flags register (bit 8).\<close>

definition X86_EFLAGS_TF :: u64 where "X86_EFLAGS_TF = 0x100"

definition hit_bounded_fence :: "env \<Rightarrow> kstate \<Rightarrow> bool" where
  [tc_macro]: "hit_bounded_fence E s \<longleftrightarrow>
     use_bounded_fence E \<and> us_hit_bounded_fence (ustat s (cur E)) \<noteq> 0"

definition hit_bounded_fence_enable :: "env \<Rightarrow> kstate \<Rightarrow> kstate" where
  [tc_macro]: "hit_bounded_fence_enable E s =
     (if use_bounded_fence E then upd_ustat (cur E) (\<lambda>u. u\<lparr>us_hit_bounded_fence := 1\<rparr>) s else s)"

definition bound_overflow_period :: "env \<Rightarrow> kstate \<Rightarrow> tid \<Rightarrow> u64 \<Rightarrow> u64" where
  "bound_overflow_period E s i period =
     (if use_bounded_fence E
      then if period + get_chunk_ticks s i > IMPRECISE_BOUNDED_CHUNK_SIZE
           then IMPRECISE_BOUNDED_CHUNK_SIZE - get_chunk_ticks s i else period
      else period)"

definition single_stepping_dec :: "env \<Rightarrow> kstate \<Rightarrow> tid \<Rightarrow> kstate" where
  [tc_macro]: "single_stepping_dec E s i =
     (if use_bounded_fence E then upd_clock i (\<lambda>e. e\<lparr>count_ticks := count_ticks e - 1\<rparr>) s else s)"

definition single_stepping_done :: "env \<Rightarrow> kstate \<Rightarrow> tid \<Rightarrow> bool" where
  [tc_macro]: "single_stepping_done E s i \<longleftrightarrow> use_bounded_fence E \<and> count_ticks (clocks s i) \<le> 2"

definition single_stepping_enable :: "env \<Rightarrow> kstate \<Rightarrow> tid \<Rightarrow> u64 \<Rightarrow> kstate" where
  [tc_macro]: "single_stepping_enable E s i val =
     (if use_bounded_fence E then upd_clock i (\<lambda>e. e\<lparr>count_ticks := val + 2\<rparr>) s else s)"

definition single_stepping_on :: "env \<Rightarrow> kstate \<Rightarrow> tid \<Rightarrow> bool" where
  [tc_macro]: "single_stepping_on E s i \<longleftrightarrow> use_bounded_fence E \<and> count_ticks (clocks s i) > 1"

definition single_stepping_reset :: "env \<Rightarrow> kstate \<Rightarrow> tid \<Rightarrow> kstate" where
  [tc_macro]: "single_stepping_reset E s i =
     (if use_bounded_fence E then upd_clock i (\<lambda>e. e\<lparr>count_ticks := 0\<rparr>) s else s)"

subsection \<open>The operations\<close>

definition task_regs_set_tf :: "env \<Rightarrow> kstate \<Rightarrow> kstate" where
  [tc_macro]: "task_regs_set_tf E s =
     s\<lparr>task_regs := (task_regs s)(cur E := task_regs s (cur E) OR X86_EFLAGS_TF)\<rparr>"

definition task_regs_clear_tf :: "env \<Rightarrow> kstate \<Rightarrow> kstate" where
  [tc_macro]: "task_regs_clear_tf E s =
     s\<lparr>task_regs := (task_regs s)(cur E := task_regs s (cur E) AND NOT X86_EFLAGS_TF)\<rparr>"

definition begin_bounded_memory_fence :: "env \<Rightarrow> kstate \<Rightarrow> kstate" where
  "begin_bounded_memory_fence E s =
     (let remaining_ticks =
            (if get_chunk_ticks s (cur E) > BOUNDED_CHUNK_SIZE then 0
             else BOUNDED_CHUNK_SIZE - get_chunk_ticks s (cur E))
      in if tick_counter_is_running E s
         then if remaining_ticks = 0
              then emit (ForceSig (cur E)) (hit_bounded_fence_enable E (tick_counter_turn_off E s))
              else let s = (if \<not> in_nmi E then task_regs_set_tf E s else s)
                   in single_stepping_enable E s (cur E) remaining_ticks
         else s)"

definition bounded_memory_fence_turn_on_tf :: "u64 \<Rightarrow> u64" where
  "bounded_memory_fence_turn_on_tf flags = flags OR X86_EFLAGS_TF"

definition end_bounded_memory_fence_early :: "env \<Rightarrow> kstate \<Rightarrow> kstate" where
  "end_bounded_memory_fence_early E s =
     (let s = task_regs_clear_tf E s;
          s = hit_bounded_fence_enable E s
      in single_stepping_reset E s (cur E))"

text \<open>\<open>on_single_step\<close>: the state, the flags in \<open>regs\<close> and the result.\<close>

definition on_single_step :: "env \<Rightarrow> kstate \<Rightarrow> u64 \<Rightarrow> kstate \<times> u64 \<times> int" where
  "on_single_step E s flags =
     (if single_stepping_on E s (cur E)
      then let s = single_stepping_dec E s (cur E);
               s = inc_clock_ticks_no_chunk_add s (cur E) 1
           in if single_stepping_done E s (cur E)
              then let flags = flags AND NOT X86_EFLAGS_TF;
                       s = single_stepping_dec E s (cur E);
                       s = tick_counter_turn_off E s;
                       s = hit_bounded_fence_enable E s;
                       s = emit (ForceSig (cur E)) s;
                       flags = flags AND NOT X86_EFLAGS_TF
                   in (s, flags, 1)
              else (s, flags, 1)
      else if hit_bounded_fence E s then (s, flags, 1)
      else if get_chunk_ticks s (cur E) < BOUNDED_CHUNK_SIZE
      then (s, flags AND NOT X86_EFLAGS_TF, 1)
      else (s, flags, 0))"

definition inc_chunk_ticks :: "env \<Rightarrow> kstate \<Rightarrow> tid \<Rightarrow> u64 \<Rightarrow> kstate" where
  "inc_chunk_ticks E s i val =
     (let s = upd_clock i (\<lambda>e. e\<lparr>chunk_ticks := chunk_ticks e + val\<rparr>) s
      in if use_bounded_fence E \<and> get_chunk_ticks s i > IMPRECISE_BOUNDED_CHUNK_SIZE
         then begin_bounded_memory_fence E s else s)"

definition inc_clock_ticks :: "env \<Rightarrow> kstate \<Rightarrow> tid \<Rightarrow> u64 \<Rightarrow> kstate" where
  "inc_clock_ticks E s i val =
     inc_chunk_ticks E (upd_clock i (\<lambda>e. e\<lparr>ticks := ticks e + val\<rparr>) s) i val"

subsection \<open>What the operations leave alone\<close>

text \<open>
  \<open>same_sched s t\<close>: \<open>t\<close> agrees with \<open>s\<close> on everything the choice of the next thread
  depends on, clock values apart.
\<close>

definition same_sched :: "kstate \<Rightarrow> kstate \<Rightarrow> bool" where
  "same_sched s t \<longleftrightarrow>
     (\<forall>j. initialized (clocks t j) = initialized (clocks s j) \<and>
          waiting (clocks t j) = waiting (clocks s j) \<and>
          sleeping (clocks t j) = sleeping (clocks s j) \<and>
          inactive (clocks t j) = inactive (clocks s j) \<and>
          base_ticks (clocks t j) = base_ticks (clocks s j)) \<and>
     active_threads t = active_threads s \<and> lowest_tid t = lowest_tid s \<and>
     notification_needed t = notification_needed s \<and> nmi_new_low t = nmi_new_low s \<and>
     user_status_arr t = user_status_arr s"

lemma same_sched_refl [simp]: "same_sched s s"
  by (simp add: same_sched_def)

lemma same_sched_trans: "same_sched s t \<Longrightarrow> same_sched t u \<Longrightarrow> same_sched s u"
  by (simp add: same_sched_def)

text \<open>
  Rules of the shape \<open>same_sched s t \<Longrightarrow> same_sched s (op t)\<close>, for composed operations.
\<close>

named_theorems sched_intro

lemma same_sched_upd_clock:
  assumes "same_sched s t"
    "\<And>e. initialized (f e) = initialized e" "\<And>e. waiting (f e) = waiting e"
    "\<And>e. sleeping (f e) = sleeping e" "\<And>e. inactive (f e) = inactive e"
    "\<And>e. base_ticks (f e) = base_ticks e"
  shows "same_sched s (upd_clock i f t)"
  using assms by (simp add: same_sched_def)

lemma same_sched_upd_event [sched_intro]: "same_sched s t \<Longrightarrow> same_sched s (upd_event i f t)"
  by (simp add: upd_event_def same_sched_upd_clock)

lemma same_sched_upd_hw [sched_intro]: "same_sched s t \<Longrightarrow> same_sched s (upd_hw i f t)"
  by (simp add: upd_hw_def same_sched_upd_event)

lemma same_sched_upd_ustat [sched_intro]: "same_sched s t \<Longrightarrow> same_sched s (upd_ustat i f t)"
  by (simp add: same_sched_def)

lemma same_sched_emit [sched_intro]: "same_sched s t \<Longrightarrow> same_sched s (emit x t)"
  by (simp add: same_sched_def)

lemma same_sched_turn_off [sched_intro]: "same_sched s t \<Longrightarrow> same_sched s (tick_counter_turn_off E t)"
  by (simp add: tc_macro same_sched_upd_clock)

lemma same_sched_turn_on [sched_intro]: "same_sched s t \<Longrightarrow> same_sched s (tick_counter_turn_on E t)"
  by (simp add: tc_macro same_sched_upd_clock)

lemma same_sched_reset_chunk [sched_intro]: "same_sched s t \<Longrightarrow> same_sched s (reset_chunk_ticks t i)"
  by (simp add: tc_macro same_sched_upd_clock)

lemma same_sched_inc_no_chunk [sched_intro]:
  "same_sched s t \<Longrightarrow> same_sched s (inc_clock_ticks_no_chunk_add t i v)"
  by (simp add: tc_macro same_sched_upd_clock)

lemma same_sched_begin [sched_intro]:
  "same_sched s t \<Longrightarrow> same_sched s (begin_bounded_memory_fence E t)"
  by (simp add: begin_bounded_memory_fence_def tc_macro same_sched_def Let_def)

lemma same_sched_end_early [sched_intro]:
  "same_sched s t \<Longrightarrow> same_sched s (end_bounded_memory_fence_early E t)"
  by (simp add: end_bounded_memory_fence_early_def tc_macro same_sched_def Let_def)

lemma same_sched_on_single_step [sched_intro]:
  "same_sched s t \<Longrightarrow> same_sched s (fst (on_single_step E t flags))"
  by (simp add: on_single_step_def tc_macro same_sched_def Let_def)

lemma same_sched_inc_clock_ticks [sched_intro]:
  "same_sched s t \<Longrightarrow> same_sched s (inc_clock_ticks E t i val)"
  by (simp add: inc_clock_ticks_def inc_chunk_ticks_def Let_def same_sched_upd_clock same_sched_begin)

lemma begin_fence_ticks [simp]: "ticks (clocks (begin_bounded_memory_fence E s) j) = ticks (clocks s j)"
  by (simp add: begin_bounded_memory_fence_def tc_macro Let_def)

lemma inc_clock_ticks_ticks [simp]:
  "ticks (clocks (inc_clock_ticks E s i val) j) =
     (if j = i then ticks (clocks s i) + val else ticks (clocks s j))"
  by (simp add: inc_clock_ticks_def inc_chunk_ticks_def Let_def)

subsection \<open>Single stepping to the end of a chunk\<close>

fun single_steps :: "env \<Rightarrow> nat \<Rightarrow> kstate \<Rightarrow> u64 \<Rightarrow> kstate \<times> u64" where
  "single_steps E 0 s flags = (s, flags)"
| "single_steps E (Suc n) s flags =
     (case on_single_step E s flags of (s, flags, _) \<Rightarrow> single_steps E n s flags)"

lemma on_single_step_more:
  assumes "use_bounded_fence E" "count_ticks (clocks s (cur E)) > 3"
  shows "on_single_step E s flags =
    (upd_clock (cur E) (\<lambda>e. e\<lparr>count_ticks := count_ticks e - 1, ticks := ticks e + 1\<rparr>) s, flags, 1)"
proof -
  have "\<not> count_ticks (clocks s (cur E)) - 1 \<le> 2" "count_ticks (clocks s (cur E)) > 1"
    using assms(2) by unat_arith+
  then show ?thesis
    using assms(1) by (simp add: on_single_step_def tc_macro Let_def upd_clock_def)
qed

lemma single_steps_before:
  assumes "use_bounded_fence E"
  shows "count_ticks (clocks s (cur E)) = of_nat (n + k + 2) \<Longrightarrow> 0 < k \<Longrightarrow> n + k + 2 < 2 ^ 64 \<Longrightarrow>
    single_steps E n s flags =
      (upd_clock (cur E) (\<lambda>e. e\<lparr>count_ticks := of_nat (k + 2), ticks := ticks e + of_nat n\<rparr>) s, flags)"
proof (induction n arbitrary: s)
  case 0
  then show ?case
    by (auto intro!: upd_clock_idem[symmetric] task_clock_entry_info.equality)
next
  case (Suc n)
  have "unat (count_ticks (clocks s (cur E))) = Suc n + k + 2"
    using Suc.prems(3) by (simp only: Suc.prems(1) unat_of_nat) simp
  then have "count_ticks (clocks s (cur E)) > 3"
    using Suc.prems(2) by (simp add: word_less_nat_alt)
  note step = on_single_step_more[OF assms this, of flags]
  let ?t = "upd_clock (cur E) (\<lambda>e. e\<lparr>count_ticks := count_ticks e - 1, ticks := ticks e + 1\<rparr>) s"
  have "count_ticks (clocks ?t (cur E)) = of_nat (n + k + 2)"
    using Suc.prems(1) by simp
  from Suc.IH[OF this] Suc.prems step show ?case
    by (simp add: upd_clock_def algebra_simps)
qed

lemma on_single_step_last:
  assumes "use_bounded_fence E" "count_ticks (clocks s (cur E)) = 3"
  shows "on_single_step E s flags =
    (emit (ForceSig (cur E)) (upd_ustat (cur E) (\<lambda>u. u\<lparr>us_hit_bounded_fence := 1\<rparr>)
       (upd_clock (cur E) (\<lambda>e. e\<lparr>ticks := ticks e + 1, count_ticks := 0\<rparr>) s)),
     flags AND NOT X86_EFLAGS_TF, 1)"
  using assms by (simp add: on_single_step_def tc_macro Let_def upd_clock_def)

lemma single_steps_Suc_end:
  "single_steps E (Suc n) s flags =
     (case single_steps E n s flags of (s, flags) \<Rightarrow>
        case on_single_step E s flags of (s, flags, _) \<Rightarrow> (s, flags))"
proof (induction n arbitrary: s flags)
  case 0
  then show ?case by simp
next
  case (Suc n)
  obtain s' f' r where st: "on_single_step E s flags = (s', f', r)"
    by (cases "on_single_step E s flags") auto
  then have "single_steps E (Suc (Suc n)) s flags = single_steps E (Suc n) s' f'"
    by simp
  also note Suc.IH[of s' f']
  also have "single_steps E n s' f' = single_steps E (Suc n) s flags"
    by (simp add: st)
  finally show ?case .
qed

lemma single_steps_all:
  assumes "use_bounded_fence E" "count_ticks (clocks s (cur E)) = of_nat (Suc n + 2)" "n < 2 ^ 32"
  shows "single_steps E (Suc n) s flags =
    (emit (ForceSig (cur E)) (upd_ustat (cur E) (\<lambda>u. u\<lparr>us_hit_bounded_fence := 1\<rparr>)
       (upd_clock (cur E) (\<lambda>e. e\<lparr>ticks := ticks e + of_nat (Suc n), count_ticks := 0\<rparr>) s)),
     flags AND NOT X86_EFLAGS_TF)"
proof -
  let ?t = "upd_clock (cur E) (\<lambda>e. e\<lparr>count_ticks := 3, ticks := ticks e + of_nat n\<rparr>) s"
  have "single_steps E n s flags = (?t, flags)"
    using single_steps_before[OF assms(1), of s n 1 flags] assms(2,3) by simp
  then show ?thesis
    using on_single_step_last[OF assms(1), of ?t flags]
    by (simp only: single_steps_Suc_end) (simp add: upd_clock_def algebra_simps)
qed

lemma begin_fence_stepping:
  assumes "use_bounded_fence E" "tick_counter_is_running E s" "get_chunk_ticks s (cur E) < BOUNDED_CHUNK_SIZE"
  shows "begin_bounded_memory_fence E s =
    upd_clock (cur E) (\<lambda>e. e\<lparr>count_ticks := BOUNDED_CHUNK_SIZE - chunk_ticks e + 2\<rparr>)
      (if in_nmi E then s else task_regs_set_tf E s)"
proof -
  have "BOUNDED_CHUNK_SIZE - get_chunk_ticks s (cur E) \<noteq> 0" using assms(3) by auto
  with assms show ?thesis
    by (auto simp: begin_bounded_memory_fence_def single_stepping_enable_def task_regs_set_tf_def
        get_chunk_ticks_def upd_clock_def Let_def)
qed

lemma remaining_steps:
  assumes "c < BOUNDED_CHUNK_SIZE"
  obtains n where "BOUNDED_CHUNK_SIZE - c = of_nat (Suc n)" "n < 2 ^ 32" "unat (BOUNDED_CHUNK_SIZE - c) = Suc n"
proof -
  have "BOUNDED_CHUNK_SIZE - c \<noteq> 0" using assms by auto
  then obtain n where n: "unat (BOUNDED_CHUNK_SIZE - c) = Suc n"
    by (metis unat_eq_zero not0_implies_Suc)
  have "BOUNDED_CHUNK_SIZE - c \<le> BOUNDED_CHUNK_SIZE"
    using assms by (simp add: word_sub_le)
  then have "unat (BOUNDED_CHUNK_SIZE - c) \<le> 1024000000"
    by (simp add: word_le_nat_alt BOUNDED_CHUNK_SIZE_def)
  then have "n < 2 ^ 32" using n by simp
  moreover have "BOUNDED_CHUNK_SIZE - c = of_nat (Suc n)"
    by (simp only: n[symmetric] of_nat_unat ucast_id)
  ultimately show ?thesis using that[of n] n by blast
qed

subsection \<open>Properties of the bounded fence\<close>

text \<open>
  C12: a chunk of \<open>c\<close> instructions whose fence has begun is single stepped for exactly
  \<open>BOUNDED_CHUNK_SIZE - c\<close> instructions; the last of these steps, and no other, sends the signal,
  marks the fence as hit, stops the counter and clears the trap flag, and the clock has
  advanced by one tick per step.
\<close>

theorem bounded_fence_signals_at_chunk_end:
  assumes "use_bounded_fence E" "tick_counter_is_running E s"
    and "get_chunk_ticks s (cur E) < BOUNDED_CHUNK_SIZE"
  shows "let n = unat (BOUNDED_CHUNK_SIZE - get_chunk_ticks s (cur E));
             (t, flags') = single_steps E n (begin_bounded_memory_fence E s) flags
         in effects t = effects s @ [ForceSig (cur E)] \<and> us_hit_bounded_fence (ustat t (cur E)) = 1 \<and>
            ticks (clocks t (cur E)) = ticks (clocks s (cur E)) + of_nat n \<and>
            count_ticks (clocks t (cur E)) = 0 \<and> flags' = flags AND NOT X86_EFLAGS_TF"
proof -
  let ?b = "begin_bounded_memory_fence E s"
  note b = begin_fence_stepping[OF assms]
  obtain n where n: "BOUNDED_CHUNK_SIZE - get_chunk_ticks s (cur E) = of_nat (Suc n)" "n < 2 ^ 32"
    "unat (BOUNDED_CHUNK_SIZE - get_chunk_ticks s (cur E)) = Suc n" by (rule remaining_steps[OF assms(3)])
  have "count_ticks (clocks ?b (cur E)) = of_nat (Suc n + 2)"
    using n(1) by (simp add: b get_chunk_ticks_def task_regs_set_tf_def)
  from single_steps_all[OF assms(1) this n(2), of flags] show ?thesis
    unfolding n(3) Let_def by (simp add: b task_regs_set_tf_def)
qed

theorem bounded_fence_signals_at_chunk_end_witness:
  "effects (fst (single_steps (thread 0\<lparr>use_bounded_fence := True\<rparr>) 3
     (begin_bounded_memory_fence (thread 0\<lparr>use_bounded_fence := True\<rparr>)
        (upd_clock 0 (\<lambda>e. e\<lparr>count_ticks := 1, chunk_ticks := 1023999997\<rparr>) zero_state)) 0x100)) = [ForceSig 0]"
  using bounded_fence_signals_at_chunk_end[of "thread 0\<lparr>use_bounded_fence := True\<rparr>"
      "upd_clock 0 (\<lambda>e. e\<lparr>count_ticks := 1, chunk_ticks := 1023999997\<rparr>) zero_state" "0x100"]
  by (simp add: thread_def tc_macro BOUNDED_CHUNK_SIZE_def zero_state_def case_prod_unfold Let_def)

text \<open>
  C28: before the chunk is complete no step sends a signal, marks the fence, stops
  the counter or clears the trap flag.
\<close>

theorem bounded_fence_no_early_signal:
  assumes "use_bounded_fence E" "tick_counter_is_running E s"
    and "get_chunk_ticks s (cur E) < BOUNDED_CHUNK_SIZE"
    and "k < unat (BOUNDED_CHUNK_SIZE - get_chunk_ticks s (cur E))"
  shows "let (t, flags') = single_steps E k (begin_bounded_memory_fence E s) flags
         in effects t = effects s \<and> ustat t = ustat s \<and> flags' = flags \<and>
            ticks (clocks t (cur E)) = ticks (clocks s (cur E)) + of_nat k \<and>
            single_stepping_on E t (cur E)"
proof -
  let ?b = "begin_bounded_memory_fence E s"
  note b = begin_fence_stepping[OF assms(1-3)]
  obtain n where n: "BOUNDED_CHUNK_SIZE - get_chunk_ticks s (cur E) = of_nat (Suc n)" "n < 2 ^ 32"
    "unat (BOUNDED_CHUNK_SIZE - get_chunk_ticks s (cur E)) = Suc n" by (rule remaining_steps[OF assms(3)])
  obtain m where m: "Suc n = k + Suc m" using assms(4) unfolding n(3)
    by (metis less_iff_Suc_add add_Suc_right)
  have c: "count_ticks (clocks ?b (cur E)) = of_nat (k + Suc m + 2)"
    using n(1) m by (simp add: b get_chunk_ticks_def task_regs_set_tf_def)
  have small: "k + Suc m + 2 < 2 ^ 64" using n(2) m by simp
  have "unat (of_nat (Suc m + 2) :: u64) = Suc m + 2" using small by (simp only: unat_of_nat) simp
  then have "(of_nat (Suc m + 2) :: u64) > 1" by (simp add: word_less_nat_alt)
  with single_steps_before[OF assms(1) c _ small, of flags] assms(1) show ?thesis
    by (simp add: b task_regs_set_tf_def single_stepping_on_def del: of_nat_Suc of_nat_add)
qed

theorem bounded_fence_no_early_signal_witness:
  "effects (fst (single_steps (thread 0\<lparr>use_bounded_fence := True\<rparr>) 2
     (begin_bounded_memory_fence (thread 0\<lparr>use_bounded_fence := True\<rparr>)
        (upd_clock 0 (\<lambda>e. e\<lparr>count_ticks := 1, chunk_ticks := 1023999997\<rparr>) zero_state)) 0x100)) = []"
  using bounded_fence_no_early_signal[of "thread 0\<lparr>use_bounded_fence := True\<rparr>"
      "upd_clock 0 (\<lambda>e. e\<lparr>count_ticks := 1, chunk_ticks := 1023999997\<rparr>) zero_state" 2 "0x100"]
  by (simp add: thread_def tc_macro BOUNDED_CHUNK_SIZE_def zero_state_def case_prod_unfold Let_def)

text \<open>
  C29: adding ticks to the running thread's chunk leaves it alone below the imprecise
  bound; between the bounds it starts single stepping, with the steps left to the end of the
  chunk, 1 to 199, plus 2 in \<open>count_ticks\<close>; and when the chunk is already full it signals at once.
\<close>

theorem inc_chunk_ticks_zones:
  fixes E s v
  defines "c \<equiv> get_chunk_ticks s (cur E) + v"
  assumes "use_bounded_fence E" "tick_counter_is_running E s"
  shows "let t = inc_chunk_ticks E s (cur E) v
         in get_chunk_ticks t (cur E) = c \<and>
            (if c \<le> IMPRECISE_BOUNDED_CHUNK_SIZE
             then effects t = effects s \<and> count_ticks (clocks t (cur E)) = count_ticks (clocks s (cur E))
             else if c < BOUNDED_CHUNK_SIZE
             then effects t = effects s \<and> count_ticks (clocks t (cur E)) = (BOUNDED_CHUNK_SIZE - c) + 2 \<and>
                  1 \<le> BOUNDED_CHUNK_SIZE - c \<and> BOUNDED_CHUNK_SIZE - c \<le> 199
             else effects t = effects s @ [ForceSig (cur E)] \<and> count_ticks (clocks t (cur E)) = 0)"
proof -
  let ?s = "upd_clock (cur E) (\<lambda>e. e\<lparr>chunk_ticks := chunk_ticks e + v\<rparr>) s"
  have run: "tick_counter_is_running E ?s" and ch: "get_chunk_ticks ?s (cur E) = c"
    using assms by (simp_all add: tc_macro)
  consider (low) "c \<le> IMPRECISE_BOUNDED_CHUNK_SIZE"
    | (mid) "\<not> c \<le> IMPRECISE_BOUNDED_CHUNK_SIZE" "c < BOUNDED_CHUNK_SIZE"
    | (full) "\<not> c < BOUNDED_CHUNK_SIZE" "\<not> c \<le> IMPRECISE_BOUNDED_CHUNK_SIZE"
    by (cases "c \<le> IMPRECISE_BOUNDED_CHUNK_SIZE"; cases "c < BOUNDED_CHUNK_SIZE") auto
  then show ?thesis
  proof cases
    case low
    then show ?thesis using ch by (auto simp: inc_chunk_ticks_def get_chunk_ticks_def Let_def not_less)
  next
    case mid
    then have "1 \<le> BOUNDED_CHUNK_SIZE - c" "BOUNDED_CHUNK_SIZE - c \<le> 199"
      unfolding chunk_consts by unat_arith+
    then show ?thesis
      using mid ch begin_fence_stepping[OF assms(2) run]
      by (auto simp: inc_chunk_ticks_def get_chunk_ticks_def task_regs_set_tf_def Let_def assms(2) not_le)
  next
    case full
    then show ?thesis
      using ch run assms(2)
      by (simp add: inc_chunk_ticks_def begin_bounded_memory_fence_def tc_macro Let_def not_le not_less)
  qed
qed

theorem inc_chunk_ticks_zones_witness:
  "effects (inc_chunk_ticks (thread 0\<lparr>use_bounded_fence := True\<rparr>)
     (upd_clock 0 (\<lambda>e. e\<lparr>count_ticks := 1, chunk_ticks := 1023999900\<rparr>) zero_state) 0 100) = [ForceSig 0]"
  using inc_chunk_ticks_zones[of "thread 0\<lparr>use_bounded_fence := True\<rparr>"
      "upd_clock 0 (\<lambda>e. e\<lparr>count_ticks := 1, chunk_ticks := 1023999900\<rparr>) zero_state" 100]
  by (simp add: thread_def tc_macro chunk_consts zero_state_def Let_def)

end
