(* ===== verification/Search_Entries.thy ===== *)
theory Search_Entries
  imports TC_State
begin

text \<open>
  \<open>src/src/module/search_entries.h\<close>: which thread has the lowest clock, which waiting
  thread has it, how many threads are awake. Outside an NMI the searches walk the list of
  active threads; in an NMI they scan every index up to \<open>max_index\<close>.
\<close>

subsection \<open>The operations\<close>

definition is_lowest :: "kstate \<Rightarrow> tid \<Rightarrow> bool result" where
  "is_lowest s i =
     (if i = lowest_tid s then Inr True
      else if lowest_tid s < 0 then Inl OutOfBounds
      else Inr (get_clock_ticks s i < get_clock_ticks s (lowest_tid s)))"

definition search_indices :: "env \<Rightarrow> kstate \<Rightarrow> int list result" where
  "search_indices E s =
     (if in_nmi E then Inr (listarray_foreach_allelements (active_threads s))
      else listarray_foreach (active_threads s))"

fun count_awake :: "kstate \<Rightarrow> int \<Rightarrow> int list \<Rightarrow> int" where
  "count_awake s count [] = count"
| "count_awake s count (i # is) =
     count_awake s
       (if initialized (clocks s i) \<and> \<not> inactive (clocks s i) \<and> \<not> sleeping (clocks s i)
        then count + 1 else count) is"

definition active_thread_count :: "env \<Rightarrow> kstate \<Rightarrow> int result" where
  "active_thread_count E s = bindE (search_indices E s) (\<lambda>is. Inr (count_awake s 0 is))"

text \<open>The loop the searches share: \<open>P\<close> is the test on the entry.\<close>

fun scan_least :: "(int \<Rightarrow> bool) \<Rightarrow> (int \<Rightarrow> int \<Rightarrow> bool) \<Rightarrow> int \<Rightarrow> int list \<Rightarrow> int" where
  "scan_least P lower min_tid [] = min_tid"
| "scan_least P lower min_tid (i # is) =
     scan_least P lower (if P i \<and> (min_tid < 0 \<or> lower i min_tid) then i else min_tid) is"

definition candidate :: "kstate \<Rightarrow> tid \<Rightarrow> bool" where
  "candidate s i \<longleftrightarrow> initialized (clocks s i) \<and> \<not> inactive (clocks s i)"

definition search_for_lowest_waiting_exclude_current :: "env \<Rightarrow> kstate \<Rightarrow> tid \<Rightarrow> tid result" where
  "search_for_lowest_waiting_exclude_current E s tid =
     bindE (search_indices E s) (\<lambda>is.
     let min_tid = scan_least (\<lambda>i. candidate s i \<and> waiting (clocks s i) \<and> i \<noteq> tid)
                     (clock_is_lower s) (-1) is
     in Inr (if min_tid \<ge> 0 then min_tid else -1))"

definition search_for_lowest :: "env \<Rightarrow> kstate \<Rightarrow> tid result" where
  "search_for_lowest E s =
     bindE (search_indices E s) (\<lambda>is. Inr (scan_least (candidate s) (clock_is_lower s) (-1) is))"

text \<open>
  The local \<open>int thread_arr[128]\<close> starts with whatever the stack holds; the walk stores 1
  for each waiting thread.
\<close>

definition THREAD_ARR_SIZE :: int where "THREAD_ARR_SIZE = 128"

fun mark_waiting :: "kstate \<Rightarrow> (int \<Rightarrow> u32) \<Rightarrow> int list \<Rightarrow> (int \<Rightarrow> u32) result" where
  "mark_waiting s arr [] = Inr arr"
| "mark_waiting s arr (i # is) =
     (if waiting (clocks s i)
      then if 0 \<le> i \<and> i < THREAD_ARR_SIZE then mark_waiting s (arr(i := 1)) is
           else Inl OutOfBounds
      else mark_waiting s arr is)"

definition search_for_lowest_waiting :: "env \<Rightarrow> kstate \<Rightarrow> tid result" where
  "search_for_lowest_waiting E s =
     bindE (listarray_foreach (active_threads s)) (\<lambda>is.
     bindE (mark_waiting s (thread_arr E) is) (\<lambda>arr.
     bindE (search_for_lowest E s) (\<lambda>low.
     if low \<ge> 0
     then if low < THREAD_ARR_SIZE then Inr (if arr low = 1 then low else -1)
          else Inl OutOfBounds
     else Inr (-1))))"

subsection \<open>The lowest of a set of threads\<close>

definition least_of :: "kstate \<Rightarrow> tid set \<Rightarrow> tid \<Rightarrow> bool" where
  "least_of s A m \<longleftrightarrow> m \<in> A \<and> (\<forall>j\<in>A. j \<noteq> m \<longrightarrow> clock_is_lower s m j)"

locale strict_choice =
  fixes lower :: "int \<Rightarrow> int \<Rightarrow> bool"
  assumes irrefl: "\<not> lower i i"
    and trans: "lower i j \<Longrightarrow> lower j k \<Longrightarrow> lower i k"
    and total: "i \<noteq> j \<Longrightarrow> lower i j \<or> lower j i"
begin

lemma scan_least_from:
  assumes "\<forall>x\<in>set xs. 0 \<le> x" "0 \<le> m"
  shows "let r = scan_least P lower m xs in
         (r = m \<or> r \<in> set xs \<and> P r) \<and> 0 \<le> r \<and>
         (r = m \<or> lower r m) \<and> (\<forall>x\<in>set xs. P x \<longrightarrow> x = r \<or> lower r x)"
  using assms
proof (induction xs arbitrary: m)
  case Nil
  then show ?case by simp
next
  case (Cons x xs)
  define m' where "m' = (if P x \<and> (m < 0 \<or> lower x m) then x else m)"
  define r where "r = scan_least P lower m' xs"
  have "0 \<le> m'" using Cons.prems by (simp add: m'_def)
  with Cons.IH[of m'] Cons.prems(1) have
    r: "r = m' \<or> r \<in> set xs \<and> P r" "0 \<le> r" "r = m' \<or> lower r m'"
       "\<forall>y\<in>set xs. P y \<longrightarrow> y = r \<or> lower r y"
    by (simp_all add: r_def Let_def)
  have m': "m' = m \<or> m' = x \<and> P x \<and> lower m' m" "P x \<longrightarrow> x = m' \<or> lower m' x"
    using total[of m x] Cons.prems(2) by (auto simp: m'_def)
  have "r = m \<or> lower r m" using r(3) m'(1) trans by blast
  moreover have "P x \<longrightarrow> x = r \<or> lower r x" using r(3) m'(2) trans by blast
  moreover have "r = m \<or> r \<in> set (x # xs) \<and> P r" using r(1) m'(1) by auto
  ultimately show ?case
    using r(2,4) by (simp add: Let_def m'_def[symmetric] r_def[symmetric])
qed

lemma scan_least_unique:
  assumes "\<forall>x\<in>set xs. 0 \<le> x"
  shows "if \<exists>x\<in>set xs. P x
         then \<exists>r\<in>set xs. scan_least P lower (-1) xs = r \<and> P r \<and>
                (\<forall>x\<in>set xs. P x \<longrightarrow> x \<noteq> r \<longrightarrow> lower r x)
         else scan_least P lower (-1) xs = -1"
  using assms
proof (induction xs)
  case Nil
  then show ?case by simp
next
  case (Cons x xs)
  show ?case
  proof (cases "P x")
    case True
    with Cons.prems scan_least_from[of xs x P] show ?thesis
      by (auto simp: Let_def)
  next
    case False
    with Cons show ?thesis by (auto split: if_splits)
  qed
qed

lemma scan_least_cases:
  assumes "\<forall>x\<in>set xs. 0 \<le> x"
  shows "\<exists>r. scan_least P lower (-1) xs = r \<and>
    (r = -1 \<and> (\<forall>x\<in>set xs. \<not> P x) \<or>
     0 \<le> r \<and> r \<in> set xs \<and> P r \<and> (\<forall>x\<in>set xs. P x \<longrightarrow> x \<noteq> r \<longrightarrow> lower r x))"
proof (cases "\<exists>x\<in>set xs. P x")
  case True
  from scan_least_unique[OF assms(1), of P, unfolded if_P[OF True]] assms(1)
  show ?thesis by blast
next
  case False
  from scan_least_unique[OF assms(1), of P, unfolded if_not_P[OF False]] False
  show ?thesis by blast
qed

lemma scan_least_eq:
  assumes "\<forall>x\<in>set xs. 0 \<le> x" "r \<in> set xs" "P r"
    "\<forall>x\<in>set xs. P x \<longrightarrow> x \<noteq> r \<longrightarrow> lower r x"
  shows "scan_least P lower (-1) xs = r"
proof -
  have ex: "\<exists>x\<in>set xs. P x" using assms(2,3) by blast
  obtain r' where "r' \<in> set xs" "P r'" "scan_least P lower (-1) xs = r'"
    "\<forall>x\<in>set xs. P x \<longrightarrow> x \<noteq> r' \<longrightarrow> lower r' x"
    using scan_least_unique[OF assms(1), of P, unfolded if_P[OF ex]] by blast
  with assms(2-4) trans[of r r' r] irrefl[of r] show ?thesis by blast
qed

lemma scan_least_order_independent:
  assumes "\<forall>x\<in>set xs. 0 \<le> x" "\<forall>x\<in>set ys. 0 \<le> x"
    "{x \<in> set xs. P x} = {x \<in> set ys. Q x}"
  shows "scan_least P lower (-1) xs = scan_least Q lower (-1) ys"
proof (cases "\<exists>x\<in>set xs. P x")
  case True
  with scan_least_unique[OF assms(1), of P] obtain r where
    r: "r \<in> set xs" "P r" "\<forall>x\<in>set xs. P x \<longrightarrow> x \<noteq> r \<longrightarrow> lower r x"
    and eq: "scan_least P lower (-1) xs = r" by auto
  from r assms(3) have "r \<in> set ys" "Q r" "\<forall>x\<in>set ys. Q x \<longrightarrow> x \<noteq> r \<longrightarrow> lower r x"
    by blast+
  with assms(2) eq show ?thesis by (simp add: scan_least_eq)
next
  case False
  with assms(3) have "\<not> (\<exists>x\<in>set ys. Q x)" by blast
  with False scan_least_unique[OF assms(1), of P] scan_least_unique[OF assms(2), of Q]
  show ?thesis by simp
qed

end

interpretation clock_order: strict_choice "clock_is_lower s" for s
  by unfold_locales
    (use clock_is_lower_irrefl clock_is_lower_trans clock_is_lower_total in blast)+

subsection \<open>What the searches return\<close>

lemma least_of_key: "least_of s A m \<longleftrightarrow> m \<in> A \<and> (\<forall>j\<in>A. turn_key s m \<le> turn_key s j)"
  by (auto simp: least_of_def clock_is_lower_key order.order_iff_strict)

lemma least_of_unique: "least_of s A m \<Longrightarrow> least_of s A n \<Longrightarrow> m = n"
  using order.antisym[of "turn_key s m" "turn_key s n"] by (auto simp: least_of_key)

text \<open>The lowest thread is the one with the minimum key.\<close>

lemma least_of_Min:
  assumes "finite A"
  shows "least_of s A m \<longleftrightarrow> m \<in> A \<and> turn_key s m = Min (turn_key s ` A)"
proof -
  have "turn_key s m = Min (turn_key s ` A)" if "m \<in> A" "\<forall>j\<in>A. turn_key s m \<le> turn_key s j"
    using that assms by (intro Min_eqI[symmetric]) auto
  moreover have "Min (turn_key s ` A) \<le> turn_key s j" if "j \<in> A" for j
    using that assms by simp
  ultimately show ?thesis by (auto simp: least_of_key)
qed

lemma la_in_range_nonneg: "la_in_range i \<Longrightarrow> 0 \<le> i"
  by (simp add: tc_macro)

lemma la_rep_nonneg: "la_rep la xs \<Longrightarrow> \<forall>x\<in>set xs. 0 \<le> x"
  by (auto dest: la_rep_in_range la_in_range_nonneg)

lemma search_indices_list:
  "la_rep (active_threads s) xs \<Longrightarrow> \<not> in_nmi E \<Longrightarrow> search_indices E s = Inr xs"
  by (simp add: search_indices_def la.walk_rep)

lemma search_for_lowest_result:
  assumes "la_rep (active_threads s) xs" "\<not> in_nmi E"
  shows "\<exists>m. search_for_lowest E s = Inr m \<and>
     (m = -1 \<and> (\<forall>i\<in>set xs. \<not> candidate s i) \<or>
      0 \<le> m \<and> least_of s {i \<in> set xs. candidate s i} m)"
  using clock_order.scan_least_cases[OF la_rep_nonneg[OF assms(1)], of "candidate s" s]
  by (auto simp: search_for_lowest_def search_indices_list[OF assms] least_of_def)

lemma search_for_lowest_Inr:
  assumes "la_rep (active_threads s) xs" "\<not> in_nmi E" "search_for_lowest E s = Inr m"
  shows "m = -1 \<and> (\<forall>i\<in>set xs. \<not> candidate s i) \<or>
         0 \<le> m \<and> least_of s {i \<in> set xs. candidate s i} m"
  using search_for_lowest_result[OF assms(1,2)] assms(3) by auto

text \<open>As a reference: the search computes a minimum.\<close>

definition lowest_by_key :: "kstate \<Rightarrow> tid set \<Rightarrow> tid" where
  "lowest_by_key s A = (if A = {} then -1 else key_tid (Min (turn_key s ` A)))"

lemma search_for_lowest_Min:
  assumes "la_rep (active_threads s) xs" "\<not> in_nmi E"
  shows "search_for_lowest E s = Inr (lowest_by_key s {i \<in> set xs. candidate s i})"
proof -
  let ?A = "{i \<in> set xs. candidate s i}"
  obtain m where m: "search_for_lowest E s = Inr m"
    "m = -1 \<and> ?A = {} \<or> 0 \<le> m \<and> least_of s ?A m"
    using search_for_lowest_result[OF assms] by blast
  have "Min (turn_key s ` ?A) = turn_key s m" "?A \<noteq> {}" if "least_of s ?A m"
    using that least_of_Min[of ?A s m] by auto
  with m show ?thesis by (auto simp: lowest_by_key_def)
qed

lemma lowest_by_key_cong: "clocks s = clocks t \<Longrightarrow> lowest_by_key s = lowest_by_key t"
  by (simp add: lowest_by_key_def turn_key_def get_clock_ticks_def fun_eq_iff)

text \<open>The scan an NMI makes and the walk agree where only listed threads are candidates.\<close>

lemma search_for_lowest_nmi:
  assumes "la_rep (active_threads s) xs"
    and "\<forall>i. 0 \<le> i \<longrightarrow> i \<le> max_index (active_threads s) \<longrightarrow> candidate s i \<longrightarrow> i \<in> set xs"
    and "in_nmi E" "\<not> in_nmi E'"
  shows "search_for_lowest E s = search_for_lowest E' s"
proof -
  let ?M = "max_index (active_threads s)"
  have "0 \<le> x \<and> x \<le> ?M \<and> candidate s x \<longleftrightarrow> x \<in> set xs \<and> candidate s x" for x
    using assms(2) la_rep_nonneg[OF assms(1)] la_rep_max_index[OF assms(1), of x] by blast
  then have "{x \<in> set [0..?M]. candidate s x} = {x \<in> set xs. candidate s x}"
    by simp
  moreover have "\<forall>x\<in>set [0..?M]. 0 \<le> x" by simp
  ultimately have "scan_least (candidate s) (clock_is_lower s) (-1) [0..?M] =
      scan_least (candidate s) (clock_is_lower s) (-1) xs"
    using clock_order.scan_least_order_independent la_rep_nonneg[OF assms(1)] by blast
  then show ?thesis
    using assms(1,3,4)
    by (simp add: search_for_lowest_def search_indices_def listarray_foreach_allelements_def la.walk_rep)
qed

lemma search_exclude_current_result:
  assumes "la_rep (active_threads s) xs" "\<not> in_nmi E"
  shows "\<exists>m. search_for_lowest_waiting_exclude_current E s t = Inr m \<and>
     (m = -1 \<and> (\<forall>i\<in>set xs. \<not> (candidate s i \<and> waiting (clocks s i) \<and> i \<noteq> t)) \<or>
      0 \<le> m \<and> least_of s {i \<in> set xs. candidate s i \<and> waiting (clocks s i) \<and> i \<noteq> t} m)"
proof -
  let ?P = "\<lambda>i. candidate s i \<and> waiting (clocks s i) \<and> i \<noteq> t"
  obtain r where r: "scan_least ?P (clock_is_lower s) (-1) xs = r"
    and c: "r = -1 \<and> (\<forall>x\<in>set xs. \<not> ?P x) \<or>
       0 \<le> r \<and> r \<in> set xs \<and> ?P r \<and> (\<forall>x\<in>set xs. ?P x \<longrightarrow> x \<noteq> r \<longrightarrow> clock_is_lower s r x)"
    using clock_order.scan_least_cases[OF la_rep_nonneg[OF assms(1)], of ?P s] by blast
  from c have "search_for_lowest_waiting_exclude_current E s t = Inr r"
    by (auto simp: search_for_lowest_waiting_exclude_current_def search_indices_list[OF assms] r)
  with c show ?thesis by (auto simp: least_of_def)
qed

subsection \<open>The search for a waiting thread\<close>

lemma mark_waiting_result:
  "\<forall>i\<in>set xs. waiting (clocks s i) \<longrightarrow> 0 \<le> i \<and> i < THREAD_ARR_SIZE \<Longrightarrow>
   mark_waiting s arr xs = Inr (\<lambda>i. if i \<in> set xs \<and> waiting (clocks s i) then 1 else arr i)"
  by (induction xs arbitrary: arr) (auto simp: fun_eq_iff)

lemma mark_waiting_overflow:
  "i \<in> set xs \<Longrightarrow> waiting (clocks s i) \<Longrightarrow> \<not> (0 \<le> i \<and> i < THREAD_ARR_SIZE) \<Longrightarrow>
   mark_waiting s arr xs = Inl OutOfBounds"
  by (induction xs arbitrary: arr) auto

lemma mark_waiting_Inr:
  "mark_waiting s arr xs = Inr arr' \<Longrightarrow>
   arr' = (\<lambda>i. if i \<in> set xs \<and> waiting (clocks s i) then 1 else arr i)"
  using mark_waiting_overflow[of _ xs s arr] mark_waiting_result[of xs s arr]
  by (cases "\<forall>i\<in>set xs. waiting (clocks s i) \<longrightarrow> 0 \<le> i \<and> i < THREAD_ARR_SIZE") auto

lemma search_for_lowest_waiting_result:
  assumes "la_rep (active_threads s) xs" "\<not> in_nmi E" "\<forall>i\<in>set xs. i < THREAD_ARR_SIZE"
    and "search_for_lowest E s = Inr m"
  shows "search_for_lowest_waiting E s =
    Inr (if 0 \<le> m \<and> (waiting (clocks s m) \<or> thread_arr E m = 1) then m else -1)"
proof -
  note nn = la_rep_nonneg[OF assms(1)]
  have "0 \<le> m \<Longrightarrow> m \<in> set xs"
    using search_for_lowest_Inr[OF assms(1,2,4)] by (auto simp: least_of_def)
  then show ?thesis
    using mark_waiting_result[of xs s "thread_arr E"] nn assms
    by (auto simp: search_for_lowest_waiting_def la.walk_rep)
qed

lemma search_for_lowest_waiting_Inr:
  assumes "la_rep (active_threads s) xs" "\<not> in_nmi E"
    and "search_for_lowest_waiting E s = Inr m"
  shows "m = -1 \<or> 0 \<le> m \<and> least_of s {i \<in> set xs. candidate s i} m \<and>
           (waiting (clocks s m) \<or> thread_arr E m = 1)"
proof -
  from assms(3) obtain arr low where low: "search_for_lowest E s = Inr low"
    and arr: "mark_waiting s (thread_arr E) xs = Inr arr"
    and m: "m = -1 \<or> m = low \<and> 0 \<le> low \<and> arr low = 1"
    by (auto simp: search_for_lowest_waiting_def la.walk_rep[OF assms(1)] split: if_splits)
  from search_for_lowest_Inr[OF assms(1,2) low] mark_waiting_Inr[OF arr] m show ?thesis
    by (auto split: if_splits)
qed

text \<open>The searches read the clocks and the list only.\<close>

lemma search_indices_cong [tc_frame]:
  "active_threads s = active_threads t \<Longrightarrow> search_indices E s = search_indices E t"
  by (simp add: search_indices_def)

lemma clock_is_lower_cong:
  "(\<And>j. get_clock_ticks s j = get_clock_ticks t j) \<Longrightarrow> clock_is_lower s = clock_is_lower t"
  by (simp add: clock_is_lower_def fun_eq_iff)

lemma search_for_lowest_cong:
  "active_threads s = active_threads t \<Longrightarrow>
   (\<And>j. get_clock_ticks s j = get_clock_ticks t j) \<Longrightarrow>
   (\<And>j. candidate s j = candidate t j) \<Longrightarrow>
   search_for_lowest E s = search_for_lowest E t"
proof -
  assume "active_threads s = active_threads t"
    and g: "\<And>j. get_clock_ticks s j = get_clock_ticks t j" and c: "\<And>j. candidate s j = candidate t j"
  moreover have "candidate s = candidate t" using c by (simp add: fun_eq_iff)
  moreover have "clock_is_lower s = clock_is_lower t" using g by (rule clock_is_lower_cong)
  ultimately show ?thesis
    by (simp add: search_for_lowest_def search_indices_def)
qed

lemma mark_waiting_cong:
  "(\<And>j. waiting (clocks s j) = waiting (clocks t j)) \<Longrightarrow>
   mark_waiting s arr xs = mark_waiting t arr xs"
  by (induction xs arbitrary: arr) auto

lemma search_for_lowest_waiting_cong:
  assumes "active_threads s = active_threads t"
    "\<And>j. get_clock_ticks s j = get_clock_ticks t j"
    "\<And>j. candidate s j = candidate t j"
    "\<And>j. waiting (clocks s j) = waiting (clocks t j)"
  shows "search_for_lowest_waiting E s = search_for_lowest_waiting E t"
  using search_for_lowest_cong[of s t E] mark_waiting_cong[of s t "thread_arr E"] assms
  by (simp add: search_for_lowest_waiting_def)

subsection \<open>Properties of the searches\<close>

text \<open>
  C14: a search from process context always returns; it returns \<open>-1\<close> when no
  active thread is initialised and not inactive, and otherwise the one thread among these
  whose clock is lowest, the lower id winning a tie.
\<close>

theorem search_for_lowest_is_least:
  assumes "la_rep (active_threads s) xs" "\<not> in_nmi E"
  shows "\<exists>m. search_for_lowest E s = Inr m \<and>
     (m = -1 \<and> (\<forall>i\<in>set xs. \<not> candidate s i) \<or>
      m \<in> set xs \<and> candidate s m \<and>
        (\<forall>j\<in>set xs. candidate s j \<and> j \<noteq> m \<longrightarrow>
           get_clock_ticks s m < get_clock_ticks s j \<or>
           get_clock_ticks s m = get_clock_ticks s j \<and> m < j))"
  using search_for_lowest_result[OF assms] by (auto simp: least_of_def clock_is_lower_def)

theorem search_for_lowest_is_least_witness:
  "search_for_lowest (thread 0)
     (zero_state\<lparr>active_threads := active_list [3, 1],
        clocks := (\<lambda>i. zero_entry\<lparr>initialized := True, ticks := (if i = 3 then 5 else 9)\<rparr>)\<rparr>) = Inr 3"
  (is "search_for_lowest ?E ?s = _")
proof -
  have "la_rep (active_threads ?s) [3, 1]" "\<not> in_nmi ?E"
    using active_list_rep[of "[3, 1]"] by (simp_all add: tc_macro thread_def)
  moreover have "candidate ?s i" "get_clock_ticks ?s i = (if i = 3 then 5 else 9)" for i
    by (simp_all add: candidate_def get_clock_ticks_def zero_entry_def)
  ultimately show ?thesis
    using search_for_lowest_is_least[of ?s "[3, 1]" ?E] by auto
qed

text \<open>
  C13: the result depends on which threads are active and on their
  clocks, never on the order in which they were activated.
\<close>

theorem search_for_lowest_deterministic:
  assumes "la_rep (active_threads s) xs" "la_rep (active_threads t) ys" "set xs = set ys"
    and "clocks s = clocks t" "\<not> in_nmi E"
  shows "search_for_lowest E s = search_for_lowest E t"
proof -
  have "candidate s = candidate t" using assms(4) by (simp add: candidate_def fun_eq_iff)
  with lowest_by_key_cong[OF assms(4)] assms(3) show ?thesis
    by (simp add: search_for_lowest_Min[OF assms(1,5)] search_for_lowest_Min[OF assms(2,5)])
qed

theorem search_for_lowest_deterministic_witness:
  "search_for_lowest (thread 0) (zero_state\<lparr>active_threads := active_list [3, 1, 2]\<rparr>) =
   search_for_lowest (thread 0) (zero_state\<lparr>active_threads := active_list [2, 3, 1]\<rparr>)"
  by (rule search_for_lowest_deterministic[where xs = "[3, 1, 2]" and ys = "[2, 3, 1]"])
    (auto intro!: active_list_rep simp: tc_macro thread_def)

text \<open>
  C36: an NMI does not walk the list but scans all indices up to \<open>max_index\<close>; where
  the candidates below \<open>max_index\<close> are all in the list, it finds the same thread.
\<close>

theorem search_in_nmi_agrees:
  assumes "la_rep (active_threads s) xs" "in_nmi E" "\<not> in_nmi E'"
    and "\<forall>i. 0 \<le> i \<and> i \<le> max_index (active_threads s) \<and> candidate s i \<longrightarrow> i \<in> set xs"
  shows "search_for_lowest E s = search_for_lowest E' s"
  by (rule search_for_lowest_nmi[OF assms(1) _ assms(2,3)]) (use assms(4) in blast)

theorem search_in_nmi_agrees_witness:
  "let s = zero_state\<lparr>active_threads := active_list [3, 1],
             clocks := (\<lambda>i. zero_entry\<lparr>initialized := i = 3 \<or> i = 1, ticks := 9\<rparr>)\<rparr>
   in search_for_lowest (thread 0\<lparr>in_nmi := True\<rparr>) s = search_for_lowest (thread 0) s"
  unfolding Let_def
  by (rule search_in_nmi_agrees[where xs = "[3, 1]"])
    (auto intro!: active_list_rep simp: tc_macro thread_def candidate_def zero_entry_def)

text \<open>
  When no slot of the uninitialised local array happens to hold 1, and
  every active id is below 128, the search for a waiting thread returns the lowest thread if it
  is waiting, and \<open>-1\<close> if it is not, even when another thread is waiting.
\<close>

lemma search_for_lowest_waiting_clean:
  assumes "la_rep (active_threads s) xs" "\<not> in_nmi E"
    and "\<forall>i\<in>set xs. i < 128 \<and> thread_arr E i \<noteq> 1"
  shows "\<exists>m. search_for_lowest E s = Inr m \<and>
     search_for_lowest_waiting E s = Inr (if 0 \<le> m \<and> waiting (clocks s m) then m else -1)"
proof -
  obtain m where m: "search_for_lowest E s = Inr m"
    "m = -1 \<and> (\<forall>i\<in>set xs. \<not> candidate s i) \<or> 0 \<le> m \<and> least_of s {i \<in> set xs. candidate s i} m"
    using search_for_lowest_result[OF assms(1,2)] by blast
  then have "0 \<le> m \<Longrightarrow> thread_arr E m \<noteq> 1" using assms(3) by (auto simp: least_of_def)
  with m(1) search_for_lowest_waiting_result[OF assms(1,2) _ m(1)] assms(3) show ?thesis
    by (auto simp: THREAD_ARR_SIZE_def)
qed

text \<open>
  C34: the array is never cleared, so a stack slot that happens to hold 1
  makes the search return a thread that is running and not waiting.
\<close>

theorem search_for_lowest_waiting_stale:
  "\<exists>E s. \<not> in_nmi E \<and> la_rep (active_threads s) [0, 1] \<and> \<not> waiting (clocks s 0) \<and>
     waiting (clocks s 1) \<and> search_for_lowest_waiting E s = Inr 0"
proof -
  let ?s = "zero_state\<lparr>active_threads := active_list [0, 1],
      clocks := (\<lambda>i. zero_entry\<lparr>initialized := True, waiting := i = 1\<rparr>)\<rparr>"
  let ?E = "thread 1\<lparr>thread_arr := (\<lambda>_. 1)\<rparr>"
  have rep: "la_rep (active_threads ?s) [0, 1]"
    using active_list_rep[of "[0, 1]"] by (simp add: tc_macro)
  have nmi: "\<not> in_nmi ?E" by (simp add: thread_def)
  have "search_for_lowest ?E ?s = Inr 0"
    unfolding search_for_lowest_def search_indices_list[OF rep nmi]
    by (simp add: candidate_def clock_is_lower_def get_clock_ticks_def zero_entry_def)
  with search_for_lowest_waiting_result[OF rep nmi] have "search_for_lowest_waiting ?E ?s = Inr 0"
    by (simp add: THREAD_ARR_SIZE_def)
  with rep nmi show ?thesis by (intro exI[of _ ?E] exI[of _ ?s]) (simp add: concrete_defs)
qed

text \<open>
  C35: the array has 128 slots while the list takes 4096 ids; a waiting
  thread whose id is 128 or more makes the search write outside the array.
\<close>

theorem search_for_lowest_waiting_overflow:
  assumes "la_rep (active_threads s) xs" "i \<in> set xs" "waiting (clocks s i)" "128 \<le> i"
  shows "search_for_lowest_waiting E s = Inl OutOfBounds"
  using assms mark_waiting_overflow[of i xs s "thread_arr E"]
  by (simp add: search_for_lowest_waiting_def la.walk_rep THREAD_ARR_SIZE_def)

theorem search_for_lowest_waiting_overflow_witness:
  "search_for_lowest_waiting (thread 0)
     (zero_state\<lparr>active_threads := active_list [5, 128], clocks := (\<lambda>i. zero_entry\<lparr>waiting := True\<rparr>)\<rparr>) =
   Inl OutOfBounds"
  by (rule search_for_lowest_waiting_overflow[where xs = "[5, 128]" and i = 128])
    (auto intro!: active_list_rep simp: tc_macro)

end
