(* ===== verification/Logical_Clock.thy ===== *)
theory Logical_Clock
  imports Bounded_TSO Search_Entries
begin

text \<open>
  \<open>src/src/module/logical_clock_instruction_counting.h\<close>: moving the hardware counter's
  ticks into a thread's clock, programming the counter, choosing the next overflow period;
  and \<open>logical_clock_no_ticks.h\<close>, its empty counterpart, which \<open>clock_main.c\<close> includes
  instead when \<open>NO_INSTRUCTION_COUNTING\<close> is defined.
\<close>

subsection \<open>Constants\<close>

definition MAX_CLOCK_SAMPLE_PERIOD :: u64 where "MAX_CLOCK_SAMPLE_PERIOD = 200000"
definition MIN_CLOCK_SAMPLE_PERIOD :: u64 where "MIN_CLOCK_SAMPLE_PERIOD = 1024"
definition X86_CNT_VAL_BITS :: nat where "X86_CNT_VAL_BITS = 48"
definition X86_CNT_VAL_MASK :: u64 where "X86_CNT_VAL_MASK = push_bit X86_CNT_VAL_BITS 1 - 1"

subsection \<open>Reading the counter\<close>

definition ic_update_clock_ticks :: "env \<Rightarrow> kstate \<Rightarrow> tid \<Rightarrow> kstate" where
  "ic_update_clock_ticks E s i =
     (let rawcount = ev_count (event (clocks s i));
          s = upd_clock i (\<lambda>e. e\<lparr>debug_last_overflow_ticks := rawcount\<rparr>) s;
          s = upd_clock i (\<lambda>e. e\<lparr>debug_last_enable_ticks := chunk_ticks e\<rparr>) s;
          s = inc_clock_ticks E s i rawcount
      in upd_event i (\<lambda>p. p\<lparr>ev_count := 0\<rparr>) s)"

text \<open>
  The \<open>again:\<close> loop. \<open>read_counter_loop rs raw prev cnt\<close>: each element of \<open>rs\<close> is an
  attempt at whose end an NMI has changed \<open>prev_count\<close> and the event's count; the
  \<open>cmpxchg\<close> compares the old \<open>prev_count\<close>. The last attempt is not overtaken. The result
  is the new raw count, the previous raw count, and the event's count.
\<close>

fun read_counter_loop :: "(u64 \<times> u64 \<times> u64) list \<Rightarrow> u64 \<Rightarrow> u64 \<Rightarrow> u64 \<Rightarrow> u64 \<times> u64 \<times> u64" where
  "read_counter_loop [] raw prev cnt = (raw, prev, cnt)"
| "read_counter_loop ((r, p, d) # rs) raw prev cnt =
     (if p = prev then (r, prev, cnt + d) else read_counter_loop rs raw p (cnt + d))"

definition read_performance_counter :: "env \<Rightarrow> kstate \<Rightarrow> tid \<Rightarrow> kstate \<times> u64 \<times> u64" where
  "read_performance_counter E s i =
     (case read_counter_loop (rdmsr_retry E) (rdmsr E) (prev_count (hw (event (clocks s i))))
             (ev_count (event (clocks s i))) of
        (new_raw_count, prev_raw_count, cnt) \<Rightarrow>
          (upd_event i (\<lambda>p. p\<lparr>ev_count := cnt, hw := (hw p)\<lparr>prev_count := new_raw_count\<rparr>\<rparr>) s,
           new_raw_count, prev_raw_count))"

definition pmc_delta :: "u64 \<Rightarrow> u64 \<Rightarrow> u64" where
  "pmc_delta new_raw_count prev_raw_count =
     (let shift = 64 - X86_CNT_VAL_BITS
      in signed_drop_bit shift (push_bit shift new_raw_count - push_bit shift prev_raw_count))"

definition ic_read_clock_and_update :: "env \<Rightarrow> kstate \<Rightarrow> tid \<Rightarrow> kstate" where
  "ic_read_clock_and_update E s i =
     (let counter_was_on = tick_counter_is_running E s
      in case read_performance_counter E s i of (s, new_raw_count, prev_raw_count) \<Rightarrow>
         let s = tick_counter_turn_off E s;
             delta = pmc_delta new_raw_count prev_raw_count + ev_count (event (clocks s i));
             s = upd_event i (\<lambda>p. p\<lparr>ev_count := 0\<rparr>) s
         in if counter_was_on
            then let s = upd_clock (cur E) (\<lambda>e. e\<lparr>debug_last_overflow_ticks := delta\<rparr>) s;
                     s = upd_clock i (\<lambda>e. e\<lparr>debug_last_enable_ticks := chunk_ticks e\<rparr>) s;
                     s = inc_clock_ticks E s i delta
                 in upd_ustat (cur E) (\<lambda>u. u\<lparr>us_ticks := get_clock_ticks s (cur E)\<rparr>) s
            else s)"

definition ic_reset_current_ticks :: "env \<Rightarrow> kstate \<Rightarrow> tid \<Rightarrow> kstate" where
  "ic_reset_current_ticks E s i =
     (case read_performance_counter E s i of (s, _, _) \<Rightarrow>
        upd_event i (\<lambda>p. p\<lparr>ev_count := 0\<rparr>) s)"

subsection \<open>Programming the counter\<close>

definition program_counter :: "tid \<Rightarrow> u64 \<Rightarrow> kstate \<Rightarrow> kstate" where
  "program_counter i val s =
     upd_event i (\<lambda>p. p\<lparr>ev_count := 0,
        hw := (hw p)\<lparr>pmc := (- val) AND X86_CNT_VAL_MASK, period_left := val, prev_count := - val\<rparr>,
        last_written := - val\<rparr>) s"

definition ic_set_perf_counter_max :: "env \<Rightarrow> kstate \<Rightarrow> tid \<Rightarrow> kstate" where
  "ic_set_perf_counter_max E s i =
     (let val = push_bit 31 1 - 1
      in program_counter i val (upd_hw i (\<lambda>h. h\<lparr>sample_period := val\<rparr>) s))"

definition ic_set_perf_counter :: "env \<Rightarrow> kstate \<Rightarrow> tid \<Rightarrow> kstate" where
  "ic_set_perf_counter E s i =
     (let val = sample_period (hw (event (clocks s i))) in program_counter i val s)"

subsection \<open>The overflow period\<close>

definition adaptive_period :: "env \<Rightarrow> kstate \<Rightarrow> tid \<Rightarrow> tid \<Rightarrow> u64" where
  "adaptive_period E s i lowest_waiting_tid =
     (let new_sample_period = sample_period (hw (event (clocks s i))) + 10000;
          new_sample_period =
            (if lowest_waiting_tid \<ge> 0
             then let lowest_waiting_tid_clock = get_clock_ticks s lowest_waiting_tid;
                      myclock = get_clock_ticks s i
                  in if lowest_waiting_tid_clock > myclock
                     then tc_max (lowest_waiting_tid_clock - myclock + 1000) MIN_CLOCK_SAMPLE_PERIOD
                     else new_sample_period
             else new_sample_period)
      in tc_min (bound_overflow_period E s i new_sample_period) MAX_CLOCK_SAMPLE_PERIOD)"

definition ic_update_overflow_period :: "env \<Rightarrow> kstate \<Rightarrow> tid \<Rightarrow> kstate result" where
  "ic_update_overflow_period E s i =
     (if \<not> use_adaptive_overflow_period E then Inr s
      else if single_stepping_on E s i \<or> hit_bounded_fence E s
      then Inr (upd_hw i (\<lambda>h. h\<lparr>sample_period := IMPRECISE_BOUNDED_CHUNK_SIZE\<rparr>) s)
      else bindE (search_for_lowest_waiting_exclude_current E s i) (\<lambda>lowest_waiting_tid.
           Inr (upd_hw i (\<lambda>h. h\<lparr>sample_period := adaptive_period E s i lowest_waiting_tid\<rparr>) s)))"

definition ic_reset_overflow_period :: "env \<Rightarrow> kstate \<Rightarrow> tid \<Rightarrow> kstate" where
  "ic_reset_overflow_period E s i =
     (if use_adaptive_overflow_period E
      then upd_hw (cur E) (\<lambda>h. h\<lparr>sample_period := 0, period_left := 0\<rparr>) s
      else s)"

subsection \<open>With and without instruction counting\<close>

text \<open>\<open>logical_clock_no_ticks.h\<close> defines the same names as empty macros.\<close>

definition logical_clock_no_ticks :: "kstate \<Rightarrow> kstate" where
  "logical_clock_no_ticks s = s"

definition logical_clock_update_clock_ticks :: "env \<Rightarrow> kstate \<Rightarrow> tid \<Rightarrow> kstate" where
  "logical_clock_update_clock_ticks E s i =
     (if no_instruction_counting E then logical_clock_no_ticks s else ic_update_clock_ticks E s i)"

definition logical_clock_read_clock_and_update :: "env \<Rightarrow> kstate \<Rightarrow> tid \<Rightarrow> kstate" where
  "logical_clock_read_clock_and_update E s i =
     (if no_instruction_counting E then logical_clock_no_ticks s else ic_read_clock_and_update E s i)"

definition logical_clock_reset_current_ticks :: "env \<Rightarrow> kstate \<Rightarrow> tid \<Rightarrow> kstate" where
  "logical_clock_reset_current_ticks E s i =
     (if no_instruction_counting E then logical_clock_no_ticks s else ic_reset_current_ticks E s i)"

definition logical_clock_set_perf_counter_max :: "env \<Rightarrow> kstate \<Rightarrow> tid \<Rightarrow> kstate" where
  "logical_clock_set_perf_counter_max E s i =
     (if no_instruction_counting E then logical_clock_no_ticks s else ic_set_perf_counter_max E s i)"

definition logical_clock_set_perf_counter :: "env \<Rightarrow> kstate \<Rightarrow> tid \<Rightarrow> kstate" where
  "logical_clock_set_perf_counter E s i =
     (if no_instruction_counting E then logical_clock_no_ticks s else ic_set_perf_counter E s i)"

definition logical_clock_update_overflow_period :: "env \<Rightarrow> kstate \<Rightarrow> tid \<Rightarrow> kstate result" where
  "logical_clock_update_overflow_period E s i =
     (if no_instruction_counting E then Inr (logical_clock_no_ticks s)
      else ic_update_overflow_period E s i)"

definition logical_clock_reset_overflow_period :: "env \<Rightarrow> kstate \<Rightarrow> tid \<Rightarrow> kstate" where
  "logical_clock_reset_overflow_period E s i =
     (if no_instruction_counting E then logical_clock_no_ticks s else ic_reset_overflow_period E s i)"

subsection \<open>The 48-bit difference\<close>

lemma signed_drop_push_small:
  assumes "n < 2 ^ 47"
  shows "signed_drop_bit 16 (push_bit 16 (of_nat n :: u64)) = of_nat n"
proof (rule bit_word_eqI)
  fix m assume m: "m < LENGTH(64)"
  have high: "\<not> bit (of_nat n :: u64) k" if "47 \<le> k" for k
  proof -
    have "n < 2 ^ k" using assms that
      by (meson less_le_trans one_le_numeral power_increasing)
    then have "\<not> bit n k" by (simp add: bit_iff_odd)
    then show ?thesis by (simp add: bit_of_nat_iff)
  qed
  show "bit (signed_drop_bit 16 (push_bit 16 (of_nat n :: u64))) m = bit (of_nat n :: u64) m"
    using m high[of m] high[of 47]
    by (auto simp: bit_signed_drop_bit_iff bit_push_bit_iff)
qed

lemma pmc_delta_exact:
  assumes "take_bit 48 new = take_bit 48 (prev + of_nat n)" "n < 2 ^ 47"
  shows "pmc_delta new prev = of_nat n"
proof -
  have "push_bit 16 new - push_bit 16 prev = push_bit 16 (of_nat n :: u64)"
    by (simp only: push_bit_low_bits[OF assms(1)]) (simp add: push_bit_eq_mult algebra_simps)
  then show ?thesis
    using signed_drop_push_small[OF assms(2)] by (simp add: pmc_delta_def X86_CNT_VAL_BITS_def)
qed

subsection \<open>What the operations leave alone\<close>

lemma same_sched_upd_debug [sched_intro]:
  "same_sched s t \<Longrightarrow> same_sched s (upd_clock i (\<lambda>e. e\<lparr>debug_last_overflow_ticks := v\<rparr>) t)"
  "same_sched s t \<Longrightarrow> same_sched s (upd_clock i (\<lambda>e. e\<lparr>debug_last_enable_ticks := chunk_ticks e\<rparr>) t)"
  by (simp_all add: same_sched_upd_clock)

lemma same_sched_update_clock_ticks [sched_intro]:
  "same_sched s t \<Longrightarrow> same_sched s (logical_clock_update_clock_ticks E t i)"
  by (simp only: logical_clock_update_clock_ticks_def logical_clock_no_ticks_def
        ic_update_clock_ticks_def Let_def if_split)
    (intro conjI impI sched_intro; simp)

lemma same_sched_read_counter:
  "same_sched s t \<Longrightarrow> read_performance_counter E t i = (t', a, b) \<Longrightarrow> same_sched s t'"
  by (auto simp: read_performance_counter_def split: prod.splits intro: same_sched_upd_event)

lemma same_sched_read_clock [sched_intro]:
  "same_sched s t \<Longrightarrow> same_sched s (logical_clock_read_clock_and_update E t i)"
  by (simp add: logical_clock_read_clock_and_update_def logical_clock_no_ticks_def
        ic_read_clock_and_update_def Let_def split: prod.split)
    (intro allI impI conjI sched_intro; erule (1) same_sched_read_counter)

lemma same_sched_reset_current [sched_intro]:
  "same_sched s t \<Longrightarrow> same_sched s (logical_clock_reset_current_ticks E t i)"
  by (auto simp: logical_clock_reset_current_ticks_def logical_clock_no_ticks_def
        ic_reset_current_ticks_def split: prod.split
      intro!: same_sched_upd_event intro: same_sched_read_counter)

lemma same_sched_program_counter [sched_intro]:
  "same_sched s t \<Longrightarrow> same_sched s (program_counter i v t)"
  by (simp add: program_counter_def same_sched_upd_event)

lemma same_sched_set_counters [sched_intro]:
  "same_sched s t \<Longrightarrow> same_sched s (logical_clock_set_perf_counter_max E t i)"
  "same_sched s t \<Longrightarrow> same_sched s (logical_clock_set_perf_counter E t i)"
  by (simp_all add: logical_clock_set_perf_counter_max_def logical_clock_set_perf_counter_def
      logical_clock_no_ticks_def ic_set_perf_counter_max_def ic_set_perf_counter_def Let_def
      same_sched_program_counter same_sched_upd_hw)

lemma same_sched_reset_overflow [sched_intro]:
  "same_sched s t \<Longrightarrow> same_sched s (logical_clock_reset_overflow_period E t i)"
  by (simp add: logical_clock_reset_overflow_period_def logical_clock_no_ticks_def
      ic_reset_overflow_period_def same_sched_upd_hw)

lemma same_sched_update_overflow:
  "same_sched s t \<Longrightarrow> logical_clock_update_overflow_period E t i = Inr t' \<Longrightarrow> same_sched s t'"
  by (auto simp: logical_clock_update_overflow_period_def logical_clock_no_ticks_def
      ic_update_overflow_period_def same_sched_upd_hw split: if_splits)

lemma update_overflow_total:
  assumes "la_rep (active_threads s) xs"
  shows "\<exists>t. logical_clock_update_overflow_period E s i = Inr t"
proof -
  have "\<exists>m. search_for_lowest_waiting_exclude_current E s i = Inr m"
    using assms by (simp add: search_for_lowest_waiting_exclude_current_def search_indices_def
        la.walk_rep Let_def)
  then show ?thesis
    by (auto simp: logical_clock_update_overflow_period_def ic_update_overflow_period_def)
qed

subsection \<open>No tick is lost or counted twice\<close>

text \<open>
  \<open>nmi_trace P rs\<close>: attempts \<open>(r, p, d)\<close> that are overtaken by NMIs, each of which moves
  \<open>prev_count\<close> to another value \<open>p\<close>, \<open>d\<close> instructions further modulo the counter's 48 bits,
  and adds \<open>d\<close> to the event's count; \<open>nmi_ticks rs\<close> is what they add in all.
\<close>

fun nmi_trace :: "u64 \<Rightarrow> (u64 \<times> u64 \<times> u64) list \<Rightarrow> bool" where
  "nmi_trace P [] = True"
| "nmi_trace P ((r, p, d) # rs) =
     (p \<noteq> P \<and> take_bit 48 p = take_bit 48 (P + d) \<and> nmi_trace p rs)"

definition nmi_ticks :: "(u64 \<times> u64 \<times> u64) list \<Rightarrow> u64" where
  "nmi_ticks rs = sum_list (map (\<lambda>(r, p, d). d) rs)"

lemma read_counter_loop_nmi:
  "nmi_trace P rs \<Longrightarrow> \<exists>p. read_counter_loop rs raw P c = (raw, p, c + nmi_ticks rs) \<and>
     take_bit 48 p = take_bit 48 (P + nmi_ticks rs)"
proof (induction rs arbitrary: P c)
  case Nil
  then show ?case by (simp add: nmi_ticks_def)
next
  case (Cons x rs)
  obtain r p d where x: "x = (r, p, d)" by (cases x)
  with Cons.prems have p: "p \<noteq> P" "take_bit 48 p = take_bit 48 (P + d)" "nmi_trace p rs" by auto
  from Cons.IH[OF p(3), of "c + d"] obtain q where
    q: "read_counter_loop rs raw p (c + d) = (raw, q, c + d + nmi_ticks rs)"
    "take_bit 48 q = take_bit 48 (p + nmi_ticks rs)" by blast
  have "take_bit 48 q = take_bit 48 (P + d + nmi_ticks rs)"
    using q(2) take_bit_add_cong[OF p(2)] by simp
  with q(1) p(1) show ?case by (simp add: x nmi_ticks_def algebra_simps)
qed

lemma upd_event_event [simp]: "event (clocks (upd_event i f s) j) = (if j = i then f (event (clocks s i)) else event (clocks s j))"
  by (simp add: upd_event_def)

lemma upd_event_entry [simp]:
  "ticks (clocks (upd_event i f s) j) = ticks (clocks s j)"
  "chunk_ticks (clocks (upd_event i f s) j) = chunk_ticks (clocks s j)"
  "count_ticks (clocks (upd_event i f s) j) = count_ticks (clocks s j)"
  "base_ticks (clocks (upd_event i f s) j) = base_ticks (clocks s j)"
  by (simp_all add: upd_event_def)

lemma ic_read_clock_ticks:
  assumes "tick_counter_is_running E s"
    and "read_performance_counter E s i = (t, new, prev)"
  shows "ticks (clocks (ic_read_clock_and_update E s i) i) =
           ticks (clocks s i) + (pmc_delta new prev + ev_count (event (clocks t i)))"
proof -
  have "ticks (clocks t j) = ticks (clocks s j)" for j
    using assms(2) by (auto simp: read_performance_counter_def split: prod.splits)
  then show ?thesis
    using assms by (simp add: ic_read_clock_and_update_def tc_macro Let_def)
qed

lemma read_counter_exact:
  assumes "nmi_trace (prev_count (hw (event (clocks s i)))) (rdmsr_retry E)"
    and "take_bit 48 (rdmsr E) =
         take_bit 48 (prev_count (hw (event (clocks s i))) + nmi_ticks (rdmsr_retry E) + of_nat n)"
    and "n < 2 ^ 47"
  obtains t p where "read_performance_counter E s i = (t, rdmsr E, p)" "pmc_delta (rdmsr E) p = of_nat n"
    "ev_count (event (clocks t i)) = ev_count (event (clocks s i)) + nmi_ticks (rdmsr_retry E)"
proof -
  obtain p where p: "read_counter_loop (rdmsr_retry E) (rdmsr E) (prev_count (hw (event (clocks s i))))
       (ev_count (event (clocks s i))) =
       (rdmsr E, p, ev_count (event (clocks s i)) + nmi_ticks (rdmsr_retry E))"
    "take_bit 48 p = take_bit 48 (prev_count (hw (event (clocks s i))) + nmi_ticks (rdmsr_retry E))"
    using read_counter_loop_nmi[OF assms(1)] by blast
  from assms(2) take_bit_add_cong[OF p(2)] have "take_bit 48 (rdmsr E) = take_bit 48 (p + of_nat n)"
    by simp
  from pmc_delta_exact[OF this assms(3)] p(1) that show ?thesis
    by (simp add: read_performance_counter_def)
qed

subsection \<open>Bounds of the overflow period\<close>

lemma tc_min_le1: "tc_min a b \<le> a"
  by (auto simp: tc_min_def)

lemma tc_min_le2: "tc_min a b \<le> b"
  by (auto simp: tc_min_def)

lemma adaptive_period_le_MAX: "adaptive_period E s i m \<le> MAX_CLOCK_SAMPLE_PERIOD"
  unfolding adaptive_period_def Let_def by (rule tc_min_le2)

lemma adaptive_period_ge_MIN:
  assumes "\<not> use_bounded_fence E"
    and "sample_period (hw (event (clocks s i))) \<le> - 10001"
  shows "MIN_CLOCK_SAMPLE_PERIOD \<le> adaptive_period E s i m"
proof -
  let ?p = "sample_period (hw (event (clocks s i)))"
  have p: "MIN_CLOCK_SAMPLE_PERIOD \<le> ?p + 10000"
  proof -
    have b: "unat ?p \<le> 18446744073709541615" using assms(2) by (simp add: word_le_nat_alt)
    then have "unat (?p + 10000) = unat ?p + 10000" by (simp add: unat_word_ariths)
    then show ?thesis by (simp add: word_le_nat_alt MIN_CLOCK_SAMPLE_PERIOD_def)
  qed
  have mx: "MIN_CLOCK_SAMPLE_PERIOD \<le> tc_max x MIN_CLOCK_SAMPLE_PERIOD" for x
    by (auto simp: tc_max_def)
  have "MIN_CLOCK_SAMPLE_PERIOD \<le> MAX_CLOCK_SAMPLE_PERIOD"
    by (simp add: MIN_CLOCK_SAMPLE_PERIOD_def MAX_CLOCK_SAMPLE_PERIOD_def)
  with p mx show ?thesis
    using assms(1) by (simp add: adaptive_period_def bound_overflow_period_def tc_min_def Let_def)
qed

text \<open>With the bounded fence, the next overflow comes before the end of the chunk.\<close>

lemma bound_overflow_period_in_chunk:
  assumes "use_bounded_fence E" "get_chunk_ticks s i \<le> IMPRECISE_BOUNDED_CHUNK_SIZE"
    and "p \<le> push_bit 63 1"
  shows "tc_min (bound_overflow_period E s i p) m + get_chunk_ticks s i \<le> IMPRECISE_BOUNDED_CHUNK_SIZE"
proof -
  let ?c = "get_chunk_ticks s i" and ?I = "IMPRECISE_BOUNDED_CHUNK_SIZE"
  have "unat p \<le> 2 ^ 63" using assms(3) by (simp add: word_le_nat_alt push_bit_eq_mult)
  moreover have "unat ?c < 2 ^ 32" using assms(2) by (simp add: chunk_consts word_le_nat_alt)
  ultimately have "p + ?c \<le> ?I \<Longrightarrow> p \<le> ?I - ?c"
    by (intro word_le_diff_of_add_le) simp_all
  then have "bound_overflow_period E s i p \<le> ?I - ?c"
    using assms(1) by (simp add: bound_overflow_period_def not_less)
  then have "tc_min (bound_overflow_period E s i p) m \<le> ?I - ?c"
    using tc_min_le1 order_trans by blast
  with assms(2) show ?thesis by (intro word_add_le_of_le_diff)
qed

subsection \<open>Properties of instruction counting\<close>

lemma begin_fence_event [simp]: "event (clocks (begin_bounded_memory_fence E s) j) = event (clocks s j)"
  by (simp add: begin_bounded_memory_fence_def tc_macro Let_def)

lemma inc_clock_ticks_event [simp]: "event (clocks (inc_clock_ticks E s i v) j) = event (clocks s j)"
  by (simp add: inc_clock_ticks_def inc_chunk_ticks_def Let_def)

lemma ic_read_clock_event:
  assumes "read_performance_counter E s i = (t, new, prev)"
  shows "event (clocks (ic_read_clock_and_update E s i) i) =
    (event (clocks s i))\<lparr>ev_count := 0, hw := (hw (event (clocks s i)))\<lparr>prev_count := new\<rparr>\<rparr>"
  using assms
  by (auto simp: ic_read_clock_and_update_def read_performance_counter_def tc_macro Let_def upd_event_def
      split: prod.splits)

lemma ic_read_clock_off:
  assumes "\<not> tick_counter_is_running E s"
  shows "ticks (clocks (ic_read_clock_and_update E s i) i) = ticks (clocks s i)"
  using assms
  by (auto simp: ic_read_clock_and_update_def read_performance_counter_def tc_macro Let_def
      split: prod.splits)

text \<open>
  C10: reading the counter while NMIs overtake the read any number of times adds
  to the clock exactly the instructions since the last read: those the NMIs had put into the
  event's count before, those they put there meanwhile, and the rest still in the 48-bit
  counter, across its wrap-around. Afterwards nothing is left over to be counted again.
\<close>

theorem read_clock_counts_every_tick:
  assumes "\<not> no_instruction_counting E" "tick_counter_is_running E s"
    and "nmi_trace (prev_count (hw (event (clocks s i)))) (rdmsr_retry E)"
    and "take_bit 48 (rdmsr E) =
         take_bit 48 (prev_count (hw (event (clocks s i))) + nmi_ticks (rdmsr_retry E) + of_nat n)"
    and "n < 2 ^ 47"
  shows "let t = logical_clock_read_clock_and_update E s i
         in ticks (clocks t i) =
              ticks (clocks s i) + ev_count (event (clocks s i)) + nmi_ticks (rdmsr_retry E) + of_nat n \<and>
            ev_count (event (clocks t i)) = 0 \<and> prev_count (hw (event (clocks t i))) = rdmsr E"
proof -
  obtain t p where "read_performance_counter E s i = (t, rdmsr E, p)" "pmc_delta (rdmsr E) p = of_nat n"
    "ev_count (event (clocks t i)) = ev_count (event (clocks s i)) + nmi_ticks (rdmsr_retry E)"
    by (rule read_counter_exact[OF assms(3-5)])
  with ic_read_clock_event[of E s i] ic_read_clock_ticks[OF assms(2), of i] assms(1) show ?thesis
    by (simp add: logical_clock_read_clock_and_update_def algebra_simps)
qed

theorem read_clock_counts_every_tick_witness:
  "ticks (clocks (logical_clock_read_clock_and_update
     (thread 0\<lparr>rdmsr := 7, rdmsr_retry := [(2, 3, 4)]\<rparr>)
     (upd_clock 0 (\<lambda>e. e\<lparr>count_ticks := 1, ticks := 100,
        event := zero_event\<lparr>ev_count := 50, hw := (hw zero_event)\<lparr>prev_count := 0xffffffffffff\<rparr>\<rparr>\<rparr>) zero_state) 0) 0) =
   100 + 50 + 4 + 4"
  using read_clock_counts_every_tick[of "thread 0\<lparr>rdmsr := 7, rdmsr_retry := [(2, 3, 4)]\<rparr>"
      "upd_clock 0 (\<lambda>e. e\<lparr>count_ticks := 1, ticks := 100,
        event := zero_event\<lparr>ev_count := 50, hw := (hw zero_event)\<lparr>prev_count := 0xffffffffffff\<rparr>\<rparr>\<rparr>) zero_state"
      0 4]
  by (simp add: thread_def tc_macro Let_def take_bit_eq_mask mask_numeral nmi_ticks_def)

text \<open>
  While the tick counter is off, reading the counter throws the ticks away: the
  clock does not move, and the event starts again from the counter's value.
\<close>

theorem stopped_counter_discards:
  assumes "\<not> no_instruction_counting E" "\<not> tick_counter_is_running E s" "rdmsr_retry E = []"
  shows "let t = logical_clock_read_clock_and_update E s i
         in ticks (clocks t i) = ticks (clocks s i) \<and> ev_count (event (clocks t i)) = 0 \<and>
            prev_count (hw (event (clocks t i))) = rdmsr E"
proof -
  obtain t where "read_performance_counter E s i = (t, rdmsr E, prev_count (hw (event (clocks s i))))"
    by (simp add: read_performance_counter_def assms(3))
  from ic_read_clock_event[OF this] ic_read_clock_off[OF assms(2)] assms(1) show ?thesis
    by (simp add: logical_clock_read_clock_and_update_def)
qed

theorem stopped_counter_discards_witness:
  "ticks (clocks (logical_clock_read_clock_and_update (thread 0\<lparr>rdmsr := 77\<rparr>)
     (upd_clock 0 (\<lambda>e. e\<lparr>ticks := 100\<rparr>) zero_state) 0) 0) = 100"
  using stopped_counter_discards[of "thread 0\<lparr>rdmsr := 77\<rparr>" "upd_clock 0 (\<lambda>e. e\<lparr>ticks := 100\<rparr>) zero_state" 0]
  by (simp add: concrete_defs tc_macro Let_def)

text \<open>
  C30: programming the counter with a period up to \<open>2 ^ 47\<close> leaves it exactly that
  many steps short of its 48-bit overflow, with the event's count cleared and \<open>prev_count\<close> in
  step with the counter.
\<close>

theorem programmed_counter_overflows_after_period:
  assumes "0 < val" "val \<le> push_bit 47 1"
  shows "let h = event (clocks (program_counter i val s) i)
         in unat (pmc (hw h)) + unat val = 2 ^ 48 \<and> ev_count h = 0 \<and> period_left (hw h) = val \<and>
            take_bit 48 (prev_count (hw h)) = pmc (hw h)"
proof -
  have m: "X86_CNT_VAL_MASK = mask 48"
    by (simp add: X86_CNT_VAL_MASK_def X86_CNT_VAL_BITS_def mask_eq_exp_minus_1 push_bit_eq_mult)
  have v: "0 < unat val" "unat val \<le> 2 ^ 47"
    using assms by (simp_all add: word_less_nat_alt word_le_nat_alt push_bit_eq_mult)
  have "- val = of_nat (2 ^ 64 - unat val)"
    using v by (simp add: of_nat_diff)
  then have "unat (- val) = 2 ^ 64 - unat val"
    using v by (simp only: unat_of_nat) simp
  also have "\<dots> mod 2 ^ 48 = 2 ^ 48 - unat val"
  proof -
    have "2 ^ 64 - unat val = (2 ^ 48 - unat val) + (2 ^ 16 - 1) * 2 ^ 48" using v by simp
    then show ?thesis using v by (simp only: mod_mult_self1) simp
  qed
  finally have "unat (take_bit 48 (- val)) = 2 ^ 48 - unat val"
    by (simp only: unsigned_take_bit_eq) (simp add: take_bit_eq_mod)
  with v show ?thesis
    by (simp add: program_counter_def m take_bit_eq_mask Let_def)
qed

theorem programmed_counter_overflows_after_period_witness:
  "unat (pmc (hw (event (clocks (program_counter 0 1000 zero_state) 0)))) + 1000 = 2 ^ 48"
  using programmed_counter_overflows_after_period[of 1000 0 zero_state] by (simp add: Let_def)

lemma adaptive_period_in_chunk:
  assumes "use_bounded_fence E" "get_chunk_ticks s i \<le> IMPRECISE_BOUNDED_CHUNK_SIZE"
    and old: "sample_period (hw (event (clocks s i))) \<le> MAX_CLOCK_SAMPLE_PERIOD"
    and clk: "\<forall>k. get_clock_ticks s k \<le> push_bit 62 1"
  shows "adaptive_period E s i m + get_chunk_ticks s i \<le> IMPRECISE_BOUNDED_CHUNK_SIZE"
proof -
  let ?p = "sample_period (hw (event (clocks s i)))"
  have "unat ?p \<le> 200000" using old by (simp add: word_le_nat_alt MAX_CLOCK_SAMPLE_PERIOD_def)
  then have p: "?p + 10000 \<le> push_bit 63 1" by (simp add: word_le_nat_alt unat_word_ariths push_bit_eq_mult)
  have d: "tc_max (get_clock_ticks s k - get_clock_ticks s i + 1000) MIN_CLOCK_SAMPLE_PERIOD \<le> push_bit 63 1"
    if "get_clock_ticks s i < get_clock_ticks s k" for k
  proof -
    have "unat (get_clock_ticks s k) \<le> 2 ^ 62"
      using clk by (simp add: word_le_nat_alt push_bit_eq_mult)
    then have "unat (get_clock_ticks s k - get_clock_ticks s i) \<le> 2 ^ 62"
      using that by (simp add: unat_sub order.strict_implies_order)
    then show ?thesis
      by (simp add: tc_max_def word_le_nat_alt unat_word_ariths push_bit_eq_mult MIN_CLOCK_SAMPLE_PERIOD_def)
  qed
  show ?thesis
    unfolding adaptive_period_def Let_def
    by (rule bound_overflow_period_in_chunk[OF assms(1,2)]) (use p d in auto)
qed

text \<open>
  C31: the adaptive choice of the overflow period always succeeds. While the thread is
  single stepping, or has hit the bounded fence, the period is the imprecise bound of the chunk,
  so that the counter stays out of the way. Otherwise it never exceeds
  \<open>MAX_CLOCK_SAMPLE_PERIOD\<close>. If the period before did not either, then without the bounded
  fence it is not below \<open>MIN_CLOCK_SAMPLE_PERIOD\<close>, and with it the next overflow comes no later
  than the imprecise bound of the chunk (for clocks up to \<open>2 ^ 62\<close>), where single stepping takes
  over; there it may be below the minimum.
\<close>

theorem overflow_period_bounds:
  assumes "la_rep (active_threads s) xs" "use_adaptive_overflow_period E" "\<not> no_instruction_counting E"
  shows "\<exists>t. logical_clock_update_overflow_period E s i = Inr t \<and>
    (let old = sample_period (hw (event (clocks s i))); p = sample_period (hw (event (clocks t i)))
     in if single_stepping_on E s i \<or> hit_bounded_fence E s then p = IMPRECISE_BOUNDED_CHUNK_SIZE
        else p \<le> MAX_CLOCK_SAMPLE_PERIOD \<and>
          (\<not> use_bounded_fence E \<and> old \<le> MAX_CLOCK_SAMPLE_PERIOD \<longrightarrow> MIN_CLOCK_SAMPLE_PERIOD \<le> p) \<and>
          (use_bounded_fence E \<and> old \<le> MAX_CLOCK_SAMPLE_PERIOD \<and>
             get_chunk_ticks s i \<le> IMPRECISE_BOUNDED_CHUNK_SIZE \<and> (\<forall>k. get_clock_ticks s k \<le> push_bit 62 1) \<longrightarrow>
           p + get_chunk_ticks s i \<le> IMPRECISE_BOUNDED_CHUNK_SIZE))"
proof -
  have small: "sample_period (hw (event (clocks s i))) \<le> - 10001"
    if "sample_period (hw (event (clocks s i))) \<le> MAX_CLOCK_SAMPLE_PERIOD"
    by (rule order_trans[OF that]) (simp add: MAX_CLOCK_SAMPLE_PERIOD_def)
  obtain t where t: "logical_clock_update_overflow_period E s i = Inr t"
    using update_overflow_total[OF assms(1)] by blast
  show ?thesis
  proof (cases "single_stepping_on E s i \<or> hit_bounded_fence E s")
    case True
    with t assms(2,3) have "t = upd_hw i (\<lambda>h. h\<lparr>sample_period := IMPRECISE_BOUNDED_CHUNK_SIZE\<rparr>) s"
      by (simp add: logical_clock_update_overflow_period_def ic_update_overflow_period_def)
    with t True show ?thesis by (simp add: upd_hw_def Let_def)
  next
    case False
    with t assms(2,3) obtain m where "t = upd_hw i (\<lambda>h. h\<lparr>sample_period := adaptive_period E s i m\<rparr>) s"
      by (auto simp: logical_clock_update_overflow_period_def ic_update_overflow_period_def)
    then have "sample_period (hw (event (clocks t i))) = adaptive_period E s i m"
      by (simp add: upd_hw_def)
    with t False adaptive_period_le_MAX adaptive_period_ge_MIN[OF _ small] adaptive_period_in_chunk[of E s i]
    show ?thesis by (simp add: Let_def)
  qed
qed

theorem overflow_period_bounds_witness:
  "\<exists>t u. logical_clock_update_overflow_period (thread 0\<lparr>use_adaptive_overflow_period := True\<rparr>)
         (zero_state\<lparr>active_threads := active_list [0]\<rparr>) 0 = Inr t \<and>
       1024 \<le> sample_period (hw (event (clocks t 0))) \<and> sample_period (hw (event (clocks t 0))) \<le> MAX_CLOCK_SAMPLE_PERIOD \<and>
     logical_clock_update_overflow_period (thread 0\<lparr>use_adaptive_overflow_period := True, use_bounded_fence := True\<rparr>)
         (upd_clock 0 (\<lambda>e. e\<lparr>chunk_ticks := 1023999000\<rparr>) (zero_state\<lparr>active_threads := active_list [0]\<rparr>)) 0 = Inr u \<and>
       sample_period (hw (event (clocks u 0))) + 1023999000 \<le> IMPRECISE_BOUNDED_CHUNK_SIZE"
proof -
  let ?E = "thread 0\<lparr>use_adaptive_overflow_period := True\<rparr>" and ?F = "thread 0\<lparr>use_adaptive_overflow_period := True, use_bounded_fence := True\<rparr>"
  let ?s = "zero_state\<lparr>active_threads := active_list [0]\<rparr>"
  let ?t = "upd_clock 0 (\<lambda>e. e\<lparr>chunk_ticks := 1023999000\<rparr>) ?s"
  have rep: "la_rep (active_threads ?s) [0]" "la_rep (active_threads ?t) [0]"
    using active_list_rep[of "[0]"] by (simp_all add: tc_macro)
  have E: "\<not> single_stepping_on ?E ?s 0" "\<not> hit_bounded_fence ?E ?s" "\<not> use_bounded_fence ?E"
    "use_adaptive_overflow_period ?E" "\<not> no_instruction_counting ?E"
    by (simp_all add: thread_def tc_macro)
  have F: "\<not> single_stepping_on ?F ?t 0" "\<not> hit_bounded_fence ?F ?t" "use_bounded_fence ?F"
    "use_adaptive_overflow_period ?F" "\<not> no_instruction_counting ?F"
    by (simp_all add: thread_def tc_macro zero_state_def zero_entry_def zero_user_status_def)
  have old: "sample_period (hw (event (clocks ?s 0))) \<le> MAX_CLOCK_SAMPLE_PERIOD"
    "sample_period (hw (event (clocks ?t 0))) \<le> MAX_CLOCK_SAMPLE_PERIOD"
    by (simp_all add: tc_macro zero_state_def zero_entry_def zero_event_def MAX_CLOCK_SAMPLE_PERIOD_def)
  have chunk: "get_chunk_ticks ?t 0 = 1023999000" "get_chunk_ticks ?t 0 \<le> IMPRECISE_BOUNDED_CHUNK_SIZE"
    by (simp_all add: tc_macro chunk_consts)
  have clk: "\<forall>k. get_clock_ticks ?t k \<le> push_bit 62 1"
    by (simp add: get_clock_ticks_def tc_macro zero_state_def zero_entry_def push_bit_eq_mult)
  from overflow_period_bounds[OF rep(1) E(4,5), of 0] E old obtain t where
    t: "logical_clock_update_overflow_period ?E ?s 0 = Inr t"
      "1024 \<le> sample_period (hw (event (clocks t 0)))" "sample_period (hw (event (clocks t 0))) \<le> MAX_CLOCK_SAMPLE_PERIOD"
    by (auto simp: Let_def MIN_CLOCK_SAMPLE_PERIOD_def)
  from overflow_period_bounds[OF rep(2) F(4,5), of 0] F old chunk(2) clk obtain u where
    "logical_clock_update_overflow_period ?F ?t 0 = Inr u"
      "sample_period (hw (event (clocks u 0))) + get_chunk_ticks ?t 0 \<le> IMPRECISE_BOUNDED_CHUNK_SIZE"
    by (auto simp: Let_def)
  with t chunk(1) show ?thesis by auto
qed

end
