(* ===== verification/Clock_Main.thy ===== *)
theory Clock_Main
  imports Logical_Clock
begin

text \<open>
  \<open>src/src/module/clock_main.c\<close>: the handlers the kernel calls through \<open>task_clock_func\<close>.
  Each handler is one definition over the state; \<open>Inl\<close> is a call that does not come back
  (a \<open>BUG_ON\<close>, an access outside its array, a null pointer, an endless loop). The group
  lock is held for the whole of what is modelled as one step; the wake-up that follows the
  unlock is part of the same step.
\<close>

subsection \<open>Who has the lowest clock\<close>

definition new_lowest :: "env \<Rightarrow> kstate \<Rightarrow> tid \<Rightarrow> tid result" where
  "new_lowest E s tid =
     (if lowest_tid s = -1 then search_for_lowest E s
      else if tid = lowest_tid s
      then bindE (search_for_lowest E s) (\<lambda>tmp. Inr (if tmp \<noteq> tid then tmp else -1))
      else if clock_is_lower s tid (lowest_tid s) then Inr tid
      else Inr (-1))"

definition thread_is_waiting :: "kstate \<Rightarrow> tid \<Rightarrow> bool" where
  "thread_is_waiting s tid \<longleftrightarrow> tid \<ge> 0 \<and> waiting (clocks s tid)"

definition is_sleeping :: "kstate \<Rightarrow> tid \<Rightarrow> bool" where
  "is_sleeping s tid \<longleftrightarrow> tid \<ge> 0 \<and> sleeping (clocks s tid)"

subsection \<open>The mapped page of user status records\<close>

text \<open>
  \<open>user_status_arr\<close> points into the one page that \<open>task_clock_entry_init\<close> maps.
  \<open>struct task_clock_user_status\<close> is packed and takes 72 bytes; \<open>lowest_clock\<close> is its first
  field, 8 bytes long.
\<close>

definition PAGE_SIZE :: nat where "PAGE_SIZE = 4096"
definition sizeof_user_status :: nat where "sizeof_user_status = 6 * 8 + 4 * 1 + 4 + 2 * 8"

definition lowest_clock_mapped :: "nat \<Rightarrow> tid \<Rightarrow> bool" where
  "lowest_clock_mapped off i \<longleftrightarrow>
     0 \<le> i \<and> off + nat i * sizeof_user_status + 8 \<le> PAGE_SIZE"

subsection \<open>Waking a thread\<close>

definition wake_up_waiting_thread :: "kstate \<Rightarrow> tid \<Rightarrow> kstate result" where
  "wake_up_waiting_thread s tid =
     (if is_sleeping s (lowest_tid s)
      then Inr (emit (WakeUpAll tid) (upd_event tid (\<lambda>p. p\<lparr>buffer_poll := True\<rparr>) s))
      else case user_status_arr s of
             None \<Rightarrow> Inl NullDeref
           | Some off \<Rightarrow>
               if lowest_clock_mapped off (lowest_tid s)
               then Inr (upd_ustat (lowest_tid s) (\<lambda>u. u\<lparr>us_lowest_clock := 1\<rparr>) s)
               else Inl OutOfBounds)"

definition wake_if :: "kstate \<times> tid \<Rightarrow> kstate result" where
  "wake_if r = (case r of (s, lowest) \<Rightarrow>
     if lowest \<ge> 0 then wake_up_waiting_thread s lowest else Inr s)"

definition set_new_low :: "kstate \<Rightarrow> tid \<Rightarrow> kstate" where
  "set_new_low s tid = s\<lparr>lowest_tid := tid, lowest_ticks := get_clock_ticks s tid\<rparr>"

definition task_clock_notify_waiting_threads :: "env \<Rightarrow> kstate \<Rightarrow> kstate result" where
  "task_clock_notify_waiting_threads E s =
     bindE (search_for_lowest_waiting E s) (\<lambda>new_low.
     wake_if
       (if new_low \<ge> 0 \<and> thread_is_waiting s new_low
        then let s = set_new_low s new_low
             in if notification_needed s \<or> nmi_new_low s
                then let s = s\<lparr>nmi_new_low := False, notification_needed := False\<rparr>
                     in (s, lowest_tid s)
                else (s, -1)
        else (s, -1)))"

subsection \<open>Counter overflows\<close>

definition task_clock_entry_overflow_update_period :: "env \<Rightarrow> kstate \<Rightarrow> kstate result" where
  "task_clock_entry_overflow_update_period E s =
     (if \<not> tick_counter_is_running E s then Inr s
      else logical_clock_update_overflow_period E
             (logical_clock_update_clock_ticks E s (cur E)) (cur E))"

text \<open>The handler is given the interrupted context's flags and returns them.\<close>

definition task_clock_overflow_handler :: "env \<Rightarrow> kstate \<Rightarrow> u64 \<Rightarrow> (kstate \<times> u64) result" where
  "task_clock_overflow_handler E s flags =
     (if \<not> tick_counter_is_running E s then Inr (s, flags)
      else let flags = (if single_stepping_on E s (cur E)
                        then bounded_memory_fence_turn_on_tf flags else flags)
           in bindE (new_lowest E s (cur E)) (\<lambda>new_low.
              if new_low \<ge> 0 \<and> new_low \<noteq> cur E \<and> \<not> nmi_new_low s
              then if thread_is_waiting s new_low
                   then Inr (emit IrqWorkQueue (s\<lparr>nmi_new_low := True\<rparr>), flags)
                   else Inr (s, flags)
              else Inr (s, flags)))"

subsection \<open>The decision: named lowest, notify, or wait\<close>

definition set_current_thread_to_lowest :: "env \<Rightarrow> kstate \<Rightarrow> kstate" where
  "set_current_thread_to_lowest E s =
     (let s = upd_ustat (cur E) (\<lambda>u. u\<lparr>us_lowest_clock := 1\<rparr>) s;
          s = s\<lparr>notification_needed := False\<rparr>;
          s = clear_entry_state E s
      in s\<lparr>lowest_ticks := get_clock_ticks s (cur E)\<rparr>)"

definition publish_ticks :: "env \<Rightarrow> kstate \<Rightarrow> kstate" where
  "publish_ticks E s = upd_ustat (cur E) (\<lambda>u. u\<lparr>us_ticks := get_clock_ticks s (cur E)\<rparr>) s"

definition note_lowest :: "tid \<Rightarrow> kstate \<Rightarrow> kstate" where
  "note_lowest new_low s =
     (if new_low \<noteq> lowest_tid s then s\<lparr>notification_needed := True, lowest_tid := new_low\<rparr> else s)"

definition name_or_notify :: "env \<Rightarrow> tid \<Rightarrow> kstate \<Rightarrow> kstate \<times> tid" where
  "name_or_notify E new_low s =
     (if new_low \<ge> 0 \<and> lowest_tid s = cur E
      then (set_current_thread_to_lowest E s, -1)
      else let s = upd_ustat (cur E) (\<lambda>u. u\<lparr>us_lowest_clock := 0\<rparr>) s
           in if thread_is_waiting s (lowest_tid s) \<and> notification_needed s
              then let s = s\<lparr>nmi_new_low := False, notification_needed := False\<rparr>
                   in (s, lowest_tid s)
              else (s, -1))"

definition refresh_lowest_ticks :: "kstate \<Rightarrow> kstate" where
  "refresh_lowest_ticks s =
     (if lowest_tid s \<ge> 0 then s\<lparr>lowest_ticks := get_clock_ticks s (lowest_tid s)\<rparr> else s)"

definition determine_lowest_and_notify_or_wait :: "env \<Rightarrow> kstate \<Rightarrow> (kstate \<times> tid) result" where
  "determine_lowest_and_notify_or_wait E s =
     (let s = publish_ticks E s
      in if current_is_only_active_thread E s
         then let s = upd_ustat (cur E) (\<lambda>u. u\<lparr>us_single_active_thread := 1\<rparr>) s
              in Inr (set_current_thread_to_lowest E s, -1)
         else let s = upd_clock (cur E) (\<lambda>e. e\<lparr>waiting := True\<rparr>) s
              in bindE (search_for_lowest_waiting E s) (\<lambda>new_low.
                 case name_or_notify E new_low (note_lowest new_low s) of
                   (s, thread_to_wakeup) \<Rightarrow> Inr (refresh_lowest_ticks s, thread_to_wakeup)))"

subsection \<open>Disabling, adding ticks, enabling\<close>

definition task_clock_on_disable :: "env \<Rightarrow> kstate \<Rightarrow> kstate result" where
  "task_clock_on_disable E s =
     (let s = (if single_stepping_on E s (cur E) then end_bounded_memory_fence_early E s else s);
          s = (if tick_counter_is_running E s
               then tick_counter_turn_off E (logical_clock_update_clock_ticks E s (cur E))
               else logical_clock_reset_current_ticks E s (cur E));
          s = s\<lparr>notification_needed := True\<rparr>
      in bindE (determine_lowest_and_notify_or_wait E s) wake_if)"

definition task_clock_add_ticks :: "env \<Rightarrow> kstate \<Rightarrow> 32 word \<Rightarrow> kstate result" where
  "task_clock_add_ticks E s n =
     (let s = inc_clock_ticks_no_chunk_add s (cur E) (scast n);
          s = publish_ticks E s
      in bindE (determine_lowest_and_notify_or_wait E s) wake_if)"

definition task_clock_on_enable :: "env \<Rightarrow> kstate \<Rightarrow> kstate result" where
  "task_clock_on_enable E s =
     (let s = reset_chunk_ticks s (cur E);
          s = tick_counter_turn_on E s;
          s = logical_clock_reset_overflow_period E s (cur E)
      in bindE (logical_clock_update_overflow_period E s (cur E)) (\<lambda>s.
         let s = (if userspace_reading (clocks s (cur E))
                  then logical_clock_set_perf_counter E
                         (upd_clock (cur E) (\<lambda>e. e\<lparr>userspace_reading := False\<rparr>) s) (cur E)
                  else s)
         in bindE (determine_lowest_and_notify_or_wait E s) (\<lambda>(s, lowest).
            let s = (if lowest_tid s = cur E
                     then s\<lparr>notification_needed := True, nmi_new_low := False\<rparr> else s)
            in wake_if (clear_entry_state E s, lowest))))"

subsection \<open>Setting up the group and its entries\<close>

definition init_entry :: "task_clock_entry_info \<Rightarrow> task_clock_entry_info" where
  "init_entry e =
     e\<lparr>initialized := False, waiting := False, sleeping := False, inactive := False, ticks := 0\<rparr>"

definition init_task_clock_entries :: "env \<Rightarrow> kstate \<Rightarrow> kstate" where
  "init_task_clock_entries E s =
     fold (\<lambda>i. upd_clock (int i) init_entry) [0..<nat (task_clock_max_threads E)] s"

text \<open>The page table walk: each level may be missing.\<close>

definition pte_get_entry_from_address ::
  "('mm \<Rightarrow> u64 \<Rightarrow> 'pgd option) \<Rightarrow> ('mm \<Rightarrow> 'pgd \<Rightarrow> u64 \<Rightarrow> 'pud option) \<Rightarrow>
   ('mm \<Rightarrow> 'pud \<Rightarrow> u64 \<Rightarrow> 'pmd option) \<Rightarrow> ('mm \<Rightarrow> 'pmd \<Rightarrow> u64 \<Rightarrow> 'pte option) \<Rightarrow>
   'mm \<Rightarrow> u64 \<Rightarrow> 'pte option" where
  "pte_get_entry_from_address pgd_offset pud_alloc pmd_alloc pte_alloc_map mm addr =
     Option.bind (pgd_offset mm addr) (\<lambda>pgd.
     Option.bind (pud_alloc mm pgd addr) (\<lambda>pud.
     Option.bind (pmd_alloc mm pud addr) (\<lambda>pmd.
     pte_alloc_map mm pmd addr)))"

definition PAGE_ALIGN :: "u64 \<Rightarrow> u64" where
  "PAGE_ALIGN a = (a + (of_nat PAGE_SIZE - 1)) AND NOT (of_nat PAGE_SIZE - 1)"

definition user_page_addr :: "u64 \<Rightarrow> u64" where
  "user_page_addr user_status = PAGE_ALIGN user_status - of_nat PAGE_SIZE"

definition page_offset :: "u64 \<Rightarrow> u32" where
  "page_offset user_status = ucast (user_status - user_page_addr user_status)"

text \<open>
  \<open>task_clock_entry_init\<close>: \<open>ev\<close> is the event, \<open>user_status\<close> the address of the running
  thread's status record and \<open>the_pte\<close> the page table lookup.
\<close>

definition task_clock_entry_init ::
  "env \<Rightarrow> kstate \<Rightarrow> perf_event \<Rightarrow> u64 \<Rightarrow> (u64 \<Rightarrow> 'pte option) \<Rightarrow> kstate result" where
  "task_clock_entry_init E s ev user_status the_pte =
     (let s = (if \<not> initialized (clocks s (cur E))
               then upd_clock (cur E) (\<lambda>e. e\<lparr>ticks := 0, base_ticks := 0\<rparr>) s else s);
          s = upd_clock (cur E) (\<lambda>e. e\<lparr>initialized := True, userspace_reading := False,
                event := ev, count_ticks := 0\<rparr>) s;
          s = reset_chunk_ticks s (cur E);
          s = clear_entry_state E s;
          s = tick_counter_turn_off E s
      in bindE (if cur E = 0 \<and> user_status_arr s = None
                then case the_pte (user_page_addr user_status) of
                       None \<Rightarrow> Inl BugOn
                     | Some p \<Rightarrow> Inr (s\<lparr>user_status_arr := Some (unat (page_offset user_status))\<rparr>)
                else Inr s) (\<lambda>s.
         Inr (upd_ustat (cur E) (\<lambda>u. u\<lparr>us_hwc_idx := - 1\<rparr>) s)))"

text \<open>\<open>s\<close> is the memory \<open>kmalloc\<close> returned, with whatever it held.\<close>

definition task_clock_group_init :: "env \<Rightarrow> kstate \<Rightarrow> kstate" where
  "task_clock_group_init E s =
     (let s = s\<lparr>lowest_tid := -1, lowest_ticks := 0, notification_needed := True,
                nmi_new_low := False, user_status_arr := None,
                active_threads := listarray_init\<rparr>
      in init_task_clock_entries E s)"

subsection \<open>Halting and activating\<close>

definition task_clock_entry_halt :: "env \<Rightarrow> kstate \<Rightarrow> kstate result" where
  "task_clock_entry_halt E s =
     bindE (mark_as_inactive s (cur E)) (\<lambda>s.
     bindE (determine_lowest_and_notify_or_wait E s) (\<lambda>(s, lowest).
     wake_if (upd_clock (cur E) (\<lambda>e. e\<lparr>waiting := False\<rparr>) s, lowest)))"

definition task_clock_entry_activate :: "env \<Rightarrow> kstate \<Rightarrow> kstate result" where
  "task_clock_entry_activate E s =
     (let s = clear_entry_state E s;
          s = reset_chunk_ticks s (cur E)
      in bindE (mark_as_active s (cur E)) (\<lambda>s.
         bindE (logical_clock_update_overflow_period E
                  (logical_clock_reset_overflow_period E s (cur E)) (cur E)) (\<lambda>s.
         let s = upd_ustat (cur E) (\<lambda>u. u\<lparr>us_notifying_id := 0, us_notifying_clock := 666,
                   us_notifying_sample := 666, us_hit_bounded_fence := 0\<rparr>) s;
             s = upd_clock (cur E) (\<lambda>e. e\<lparr>userspace_reading := False\<rparr>) s
         in bindE (new_lowest E s (cur E)) (\<lambda>new_low.
            Inr (if new_low \<ge> 0 \<and> new_low = cur E
                 then upd_ustat (cur E) (\<lambda>u. u\<lparr>us_lowest_clock := 1\<rparr>)
                        (s\<lparr>notification_needed := False, lowest_tid := new_low\<rparr>)
                 else s)))))"

text \<open>\<open>i\<close> comes from user space unchecked; an id outside \<open>clocks\<close> is an access out of bounds.\<close>

definition task_clock_entry_activate_other :: "env \<Rightarrow> kstate \<Rightarrow> tid \<Rightarrow> kstate result" where
  "task_clock_entry_activate_other E s i =
     (if \<not> valid_tid E i then Inl OutOfBounds
      else let s = (if \<not> initialized (clocks s i)
                    then upd_clock i (\<lambda>e. e\<lparr>base_ticks := get_clock_ticks s (cur E) + 1, ticks := 0\<rparr>) s
                    else s);
               s = upd_clock i (\<lambda>e. e\<lparr>initialized := True\<rparr>) s;
               s = clear_entry_state_by_id E s i
           in bindE (mark_as_active s i) (\<lambda>s.
              let s = reset_chunk_ticks s i
              in Inr (if lowest_tid s < 0 \<or> clock_is_lower s i (lowest_tid s)
                      then upd_ustat (cur E) (\<lambda>u. u\<lparr>us_activated_lowest := 1\<rparr>) s
                      else s)))"

subsection \<open>Waiting, sleeping, waking up\<close>

definition task_clock_entry_wait :: "env \<Rightarrow> kstate \<Rightarrow> kstate result" where
  "task_clock_entry_wait E s = bindE (determine_lowest_and_notify_or_wait E s) wake_if"

definition task_clock_entry_reset :: "env \<Rightarrow> kstate \<Rightarrow> kstate" where
  "task_clock_entry_reset E s = upd_clock (cur E) (\<lambda>e. e\<lparr>initialized := False\<rparr>) s"

text \<open>
  One round of the loop of \<open>task_clock_entry_sleep\<close>: the state, the thread to wake, and
  whether the loop goes round again.
\<close>

definition sleep_round :: "env \<Rightarrow> kstate \<Rightarrow> (kstate \<times> tid \<times> bool) result" where
  "sleep_round E s =
     bindE (determine_lowest_and_notify_or_wait E s) (\<lambda>(s, lowest).
     let s = (if waiting (clocks s (cur E))
              then upd_clock (cur E) (\<lambda>e. e\<lparr>sleeping := True\<rparr>) s else s)
     in if lowest < 0
        then bindE (active_thread_count E s) (\<lambda>n. Inr (s, lowest, n = 0))
        else Inr (s, lowest, False))"

text \<open>
  The loop itself has no bound. \<open>Es\<close> holds the environment of each round (what the
  stack holds may differ from round to round), so its length is the number of rounds
  allowed; \<open>Hang\<close> is a loop that is still going after them.
\<close>

fun sleep_loop :: "env list \<Rightarrow> kstate \<Rightarrow> (kstate \<times> tid) result" where
  "sleep_loop [] s = Inl Hang"
| "sleep_loop (E # Es) s =
     bindE (sleep_round E s) (\<lambda>(s, lowest, again).
     if again then sleep_loop Es s else Inr (s, lowest))"

definition task_clock_entry_sleep :: "env list \<Rightarrow> kstate \<Rightarrow> kstate result" where
  "task_clock_entry_sleep Es s = bindE (sleep_loop Es s) wake_if"

definition task_clock_entry_woke_up :: "env \<Rightarrow> kstate \<Rightarrow> kstate" where
  "task_clock_entry_woke_up E s =
     upd_clock (cur E) (\<lambda>e. e\<lparr>sleeping := False, waiting := False\<rparr>) s"

subsection \<open>Stopping and starting the clock\<close>

definition task_clock_entry_stop :: "env \<Rightarrow> kstate \<Rightarrow> kstate result" where
  "task_clock_entry_stop E s =
     (let s = (if single_stepping_on E s (cur E) then end_bounded_memory_fence_early E s else s);
          s = logical_clock_read_clock_and_update E s (cur E)
      in bindE (determine_lowest_and_notify_or_wait E s) wake_if)"

definition task_clock_entry_stop_no_notify :: "env \<Rightarrow> kstate \<Rightarrow> kstate" where
  "task_clock_entry_stop_no_notify E s = logical_clock_read_clock_and_update E s (cur E)"

definition task_clock_entry_start :: "env \<Rightarrow> kstate \<Rightarrow> kstate result" where
  "task_clock_entry_start E s =
     (let s = upd_ustat (cur E) (\<lambda>u. u\<lparr>us_notifying_id := 0\<rparr>) s;
          s = logical_clock_reset_current_ticks E s (cur E)
      in bindE (task_clock_on_enable E s) (\<lambda>s.
         Inr (s\<lparr>start_counter := start_counter s + 1\<rparr>)))"

definition task_clock_entry_start_no_notify :: "env \<Rightarrow> kstate \<Rightarrow> kstate" where
  "task_clock_entry_start_no_notify E s =
     (let s = upd_clock (cur E) (\<lambda>e. e\<lparr>userspace_reading := True\<rparr>) s;
          s = logical_clock_reset_current_ticks E s (cur E);
          s = logical_clock_set_perf_counter_max E s (cur E);
          s = tick_counter_turn_off E s;
          s = upd_ustat (cur E) (\<lambda>u. u\<lparr>us_notifying_id := 666\<rparr>) s
      in s\<lparr>start_counter := start_counter s + 1\<rparr>)"

definition task_clock_entry_is_singlestep :: "env \<Rightarrow> kstate \<Rightarrow> u64 \<Rightarrow> kstate \<times> u64 \<times> int" where
  "task_clock_entry_is_singlestep E s flags = on_single_step E s flags"

end
