(* ===== verification/Clock_Decision.thy ===== *)
theory Clock_Decision
  imports Clock_Main
begin

text \<open>
  What \<open>determine_lowest_and_notify_or_wait\<close> decides. The decision is classified by a
  \<open>verdict\<close>; the handlers' properties rest on this classification and do not unfold the
  function again.
\<close>

subsection \<open>What the pieces do to the fields\<close>

lemma clear_entry_state_sel [simp]:
  "clocks (clear_entry_state E s) j =
     (if j = cur E then (clocks s j)\<lparr>inactive := False, waiting := False, sleeping := False\<rparr>
      else clocks s j)"
  "lowest_tid (clear_entry_state E s) = lowest_tid s"
  "notification_needed (clear_entry_state E s) = notification_needed s"
  "nmi_new_low (clear_entry_state E s) = nmi_new_low s"
  "user_status_arr (clear_entry_state E s) = user_status_arr s"
  "active_threads (clear_entry_state E s) = active_threads s"
  "effects (clear_entry_state E s) = effects s"
  "us_lowest_clock (ustat (clear_entry_state E s) j) = us_lowest_clock (ustat s j)"
  "us_ticks (ustat (clear_entry_state E s) j) = us_ticks (ustat s j)"
  "us_single_active_thread (ustat (clear_entry_state E s) j) = us_single_active_thread (ustat s j)"
  by (auto simp: clear_entry_state_def tc_macro)

lemma set_current_thread_to_lowest_sel [simp]:
  "clocks (set_current_thread_to_lowest E s) j =
     (if j = cur E then (clocks s j)\<lparr>inactive := False, waiting := False, sleeping := False\<rparr>
      else clocks s j)"
  "lowest_tid (set_current_thread_to_lowest E s) = lowest_tid s"
  "notification_needed (set_current_thread_to_lowest E s) = False"
  "nmi_new_low (set_current_thread_to_lowest E s) = nmi_new_low s"
  "user_status_arr (set_current_thread_to_lowest E s) = user_status_arr s"
  "active_threads (set_current_thread_to_lowest E s) = active_threads s"
  "effects (set_current_thread_to_lowest E s) = effects s"
  "us_lowest_clock (ustat (set_current_thread_to_lowest E s) j) =
     (if j = cur E then 1 else us_lowest_clock (ustat s j))"
  "us_ticks (ustat (set_current_thread_to_lowest E s) j) = us_ticks (ustat s j)"
  "us_single_active_thread (ustat (set_current_thread_to_lowest E s) j) = us_single_active_thread (ustat s j)"
  by (auto simp: set_current_thread_to_lowest_def Let_def)

lemma refresh_lowest_ticks_sel [simp]:
  "clocks (refresh_lowest_ticks s) = clocks s"
  "lowest_tid (refresh_lowest_ticks s) = lowest_tid s"
  "notification_needed (refresh_lowest_ticks s) = notification_needed s"
  "nmi_new_low (refresh_lowest_ticks s) = nmi_new_low s"
  "user_status_arr (refresh_lowest_ticks s) = user_status_arr s"
  "active_threads (refresh_lowest_ticks s) = active_threads s"
  "effects (refresh_lowest_ticks s) = effects s"
  "ustat (refresh_lowest_ticks s) = ustat s"
  by (simp_all add: refresh_lowest_ticks_def)

lemma publish_ticks_sel [simp]:
  "clocks (publish_ticks E s) = clocks s"
  "lowest_tid (publish_ticks E s) = lowest_tid s"
  "notification_needed (publish_ticks E s) = notification_needed s"
  "nmi_new_low (publish_ticks E s) = nmi_new_low s"
  "user_status_arr (publish_ticks E s) = user_status_arr s"
  "active_threads (publish_ticks E s) = active_threads s"
  "effects (publish_ticks E s) = effects s"
  "us_lowest_clock (ustat (publish_ticks E s) j) = us_lowest_clock (ustat s j)"
  "us_ticks (ustat (publish_ticks E s) j) =
     (if j = cur E then get_clock_ticks s (cur E) else us_ticks (ustat s j))"
  by (simp_all add: publish_ticks_def)

lemma note_lowest_sel [simp]:
  "clocks (note_lowest n s) = clocks s"
  "lowest_tid (note_lowest n s) = n"
  "notification_needed (note_lowest n s) \<longleftrightarrow> notification_needed s \<or> n \<noteq> lowest_tid s"
  "nmi_new_low (note_lowest n s) = nmi_new_low s"
  "user_status_arr (note_lowest n s) = user_status_arr s"
  "active_threads (note_lowest n s) = active_threads s"
  "effects (note_lowest n s) = effects s"
  "ustat (note_lowest n s) = ustat s"
  by (auto simp: note_lowest_def)

subsection \<open>The decision\<close>

text \<open>
  The four ways \<open>determine_lowest_and_notify_or_wait\<close> can end, going from \<open>s\<close> to \<open>t\<close> with
  result \<open>w\<close>, \<open>xs\<close> being the active threads: the thread is alone, the thread is the lowest, the thread waits and wakes the
  lowest, the thread waits and wakes nobody.
\<close>

datatype verdict = Alone | Named | Waits_And_Wakes tid | Waits

definition verdict_ok :: "env \<Rightarrow> int list \<Rightarrow> kstate \<Rightarrow> kstate \<Rightarrow> tid \<Rightarrow> verdict \<Rightarrow> bool" where
  "verdict_ok E xs s t w v \<longleftrightarrow> (case v of
     Alone \<Rightarrow> current_is_only_active_thread E s \<and> w = -1 \<and> lowest_tid t = lowest_tid s \<and>
       us_single_active_thread (ustat t (cur E)) = 1
   | Named \<Rightarrow> \<not> current_is_only_active_thread E s \<and> w = -1 \<and> lowest_tid t = cur E \<and>
       least_of s {i \<in> set xs. candidate s i} (cur E)
   | Waits_And_Wakes l \<Rightarrow> \<not> current_is_only_active_thread E s \<and> w = l \<and> lowest_tid t = l \<and> 0 \<le> l \<and>
       l \<noteq> cur E \<and> waiting (clocks s l) \<and> least_of s {i \<in> set xs. candidate s i} l \<and>
       (notification_needed s \<or> lowest_tid s \<noteq> l) \<and> \<not> notification_needed t \<and> \<not> nmi_new_low t
   | Waits \<Rightarrow> \<not> current_is_only_active_thread E s \<and> w = -1 \<and> lowest_tid t \<noteq> cur E \<and>
       (lowest_tid t = -1 \<or> 0 \<le> lowest_tid t \<and> least_of s {i \<in> set xs. candidate s i} (lowest_tid t)) \<and>
       (0 \<le> lowest_tid t \<and> waiting (clocks s (lowest_tid t)) \<longrightarrow>
          \<not> notification_needed s \<and> lowest_tid s = lowest_tid t \<and> \<not> notification_needed t))"

lemma determine_frame:
  assumes "determine_lowest_and_notify_or_wait E s = Inr (t, w)"
  shows "active_threads t = active_threads s" "user_status_arr t = user_status_arr s"
    "effects t = effects s" "j \<noteq> cur E \<Longrightarrow> clocks t j = clocks s j"
    "initialized (clocks t j) = initialized (clocks s j)"
    "ticks (clocks t j) = ticks (clocks s j)" "base_ticks (clocks t j) = base_ticks (clocks s j)"
    "j \<noteq> cur E \<Longrightarrow> us_lowest_clock (ustat t j) = us_lowest_clock (ustat s j)"
    "us_ticks (ustat t (cur E)) = get_clock_ticks s (cur E)"
  using assms
  by (auto simp: determine_lowest_and_notify_or_wait_def name_or_notify_def Let_def
      split: if_splits prod.splits)

lemma candidate_upd_waiting [simp]:
  "candidate (upd_clock i (waiting_update f) s) = candidate s"
  by (auto simp: candidate_def fun_eq_iff)

lemma get_clock_ticks_upd_waiting [simp]:
  "get_clock_ticks (upd_clock i (waiting_update f) s) = get_clock_ticks s"
  by (auto simp: get_clock_ticks_def fun_eq_iff)

lemma candidate_publish [simp]: "candidate (publish_ticks E s) = candidate s"
  by (auto simp: candidate_def fun_eq_iff)

lemma get_clock_ticks_publish [simp]: "get_clock_ticks (publish_ticks E s) = get_clock_ticks s"
  by (auto simp: get_clock_ticks_def fun_eq_iff)

lemma least_of_cong: "get_clock_ticks s = get_clock_ticks t \<Longrightarrow> least_of s = least_of t"
  by (simp add: least_of_def clock_is_lower_def fun_eq_iff)

lemma only_active_publish [simp]:
  "current_is_only_active_thread E (publish_ticks E s) = current_is_only_active_thread E s"
  by (simp add: current_is_only_active_thread_def)

definition named_state :: "env \<Rightarrow> kstate \<Rightarrow> bool" where
  "named_state E t \<longleftrightarrow>
     \<not> waiting (clocks t (cur E)) \<and> \<not> sleeping (clocks t (cur E)) \<and> \<not> inactive (clocks t (cur E)) \<and>
     us_lowest_clock (ustat t (cur E)) = 1 \<and> \<not> notification_needed t"

definition waiting_state :: "env \<Rightarrow> kstate \<Rightarrow> kstate \<Rightarrow> bool" where
  "waiting_state E s t \<longleftrightarrow>
     waiting (clocks t (cur E)) \<and> sleeping (clocks t (cur E)) = sleeping (clocks s (cur E)) \<and>
     inactive (clocks t (cur E)) = inactive (clocks s (cur E)) \<and>
     us_lowest_clock (ustat t (cur E)) = 0"

fun is_named :: "verdict \<Rightarrow> bool" where
  "is_named Alone = True"
| "is_named Named = True"
| "is_named (Waits_And_Wakes l) = False"
| "is_named Waits = False"

lemma name_or_notify_result:
  assumes "name_or_notify E l (note_lowest l s) = (t, w)"
  shows "0 \<le> l \<and> l = cur E \<and> w = -1 \<and> t = set_current_thread_to_lowest E (note_lowest l s) \<or>
     \<not> (0 \<le> l \<and> l = cur E) \<and> w = l \<and> 0 \<le> l \<and> waiting (clocks s l) \<and>
       (notification_needed s \<or> lowest_tid s \<noteq> l) \<and>
       t = upd_ustat (cur E) (\<lambda>u. u\<lparr>us_lowest_clock := 0\<rparr>) (note_lowest l s)
             \<lparr>nmi_new_low := False, notification_needed := False\<rparr> \<or>
     \<not> (0 \<le> l \<and> l = cur E) \<and> w = -1 \<and>
       (0 \<le> l \<and> waiting (clocks s l) \<longrightarrow> \<not> notification_needed s \<and> lowest_tid s = l) \<and>
       t = upd_ustat (cur E) (\<lambda>u. u\<lparr>us_lowest_clock := 0\<rparr>) (note_lowest l s)"
  using assms
  by (auto simp: name_or_notify_def thread_is_waiting_def Let_def split: if_splits)

lemma determine_alone:
  assumes "current_is_only_active_thread E s"
  shows "determine_lowest_and_notify_or_wait E s =
    Inr (set_current_thread_to_lowest E
          (upd_ustat (cur E) (\<lambda>u. u\<lparr>us_single_active_thread := 1\<rparr>) (publish_ticks E s)), -1)"
  using assms by (simp add: determine_lowest_and_notify_or_wait_def)

lemma determine_not_alone:
  assumes "\<not> current_is_only_active_thread E s"
  shows "determine_lowest_and_notify_or_wait E s =
    (let s = upd_clock (cur E) (\<lambda>e. e\<lparr>waiting := True\<rparr>) (publish_ticks E s)
     in bindE (search_for_lowest_waiting E s) (\<lambda>new_low.
        case name_or_notify E new_low (note_lowest new_low s) of
          (s, w) \<Rightarrow> Inr (refresh_lowest_ticks s, w)))"
  using assms by (simp add: determine_lowest_and_notify_or_wait_def Let_def)

lemma determine_verdict:
  assumes rep: "la_rep (active_threads s) xs" and nmi: "\<not> in_nmi E" and cur: "0 \<le> cur E"
    and det: "determine_lowest_and_notify_or_wait E s = Inr (t, w)"
  shows "\<exists>v. verdict_ok E xs s t w v \<and>
           (if is_named v then named_state E t else waiting_state E s t)"
proof (cases "current_is_only_active_thread E s")
  case True
  from det have "t = set_current_thread_to_lowest E
          (upd_ustat (cur E) (\<lambda>u. u\<lparr>us_single_active_thread := 1\<rparr>) (publish_ticks E s)) \<and> w = -1"
    by (simp add: determine_alone[OF True])
  with True have "verdict_ok E xs s t w Alone" "named_state E t"
    by (simp_all add: verdict_ok_def named_state_def)
  then show ?thesis by (intro exI[of _ Alone]) simp
next
  case False
  define s1 where "s1 = upd_clock (cur E) (\<lambda>e. e\<lparr>waiting := True\<rparr>) (publish_ticks E s)"
  have eqs: "candidate s1 = candidate s" "least_of s1 = least_of s"
    using least_of_cong[of s1 s] by (simp_all add: s1_def)
  from det have "bindE (search_for_lowest_waiting E s1) (\<lambda>new_low.
        case name_or_notify E new_low (note_lowest new_low s1) of
          (s, w) \<Rightarrow> Inr (refresh_lowest_ticks s, w)) = Inr (t, w)"
    by (simp only: determine_not_alone[OF False] Let_def s1_def)
  then obtain l where srch: "search_for_lowest_waiting E s1 = Inr l"
    and e: "(case name_or_notify E l (note_lowest l s1) of
          (s, w) \<Rightarrow> Inr (refresh_lowest_ticks s, w)) = (Inr (t, w) :: (kstate \<times> tid) result)"
    unfolding bindE_eq_Inr by blast
  then obtain t0 where nn: "name_or_notify E l (note_lowest l s1) = (t0, w)"
    and t: "t = refresh_lowest_ticks t0"
    by (cases "name_or_notify E l (note_lowest l s1)") auto
  have "la_rep (active_threads s1) xs" using rep by (simp add: s1_def)
  from search_for_lowest_waiting_Inr[OF this nmi srch]
  have l: "l = -1 \<or> 0 \<le> l \<and> least_of s {i \<in> set xs. candidate s i} l"
    by (auto simp: eqs)
  consider (named) "0 \<le> l" "l = cur E" "w = -1" "t0 = set_current_thread_to_lowest E (note_lowest l s1)"
    | (wakes) "l \<noteq> cur E" "w = l" "0 \<le> l" "waiting (clocks s1 l)"
        "notification_needed s1 \<or> lowest_tid s1 \<noteq> l"
        "t0 = upd_ustat (cur E) (\<lambda>u. u\<lparr>us_lowest_clock := 0\<rparr>) (note_lowest l s1)
                \<lparr>nmi_new_low := False, notification_needed := False\<rparr>"
    | (waits) "\<not> (0 \<le> l \<and> l = cur E)" "w = -1"
        "0 \<le> l \<and> waiting (clocks s1 l) \<longrightarrow> \<not> notification_needed s1 \<and> lowest_tid s1 = l"
        "t0 = upd_ustat (cur E) (\<lambda>u. u\<lparr>us_lowest_clock := 0\<rparr>) (note_lowest l s1)"
    using name_or_notify_result[OF nn] by blast
  then show ?thesis
  proof cases
    case named
    with l t have "verdict_ok E xs s t w Named" "named_state E t"
      using False by (auto simp: verdict_ok_def named_state_def s1_def)
    then show ?thesis by (intro exI[of _ Named]) simp
  next
    case wakes
    with l t have "verdict_ok E xs s t w (Waits_And_Wakes l)" "waiting_state E s t"
      using False by (auto simp: verdict_ok_def waiting_state_def s1_def)
    then show ?thesis by (intro exI[of _ "Waits_And_Wakes l"]) simp
  next
    case waits
    have "lowest_tid t = l" using waits t by simp
    with waits l t have "verdict_ok E xs s t w Waits" "waiting_state E s t"
      using False cur by (auto simp: verdict_ok_def waiting_state_def s1_def)
    then show ?thesis by (intro exI[of _ Waits]) simp
  qed
qed

lemma determine_total:
  assumes rep: "la_rep (active_threads s) xs" and nmi: "\<not> in_nmi E"
    and small: "\<forall>i\<in>set xs. i < THREAD_ARR_SIZE"
  shows "\<exists>t w. determine_lowest_and_notify_or_wait E s = Inr (t, w)"
proof (cases "current_is_only_active_thread E s")
  case True
  then show ?thesis by (simp add: determine_alone)
next
  case False
  define s1 where "s1 = upd_clock (cur E) (\<lambda>e. e\<lparr>waiting := True\<rparr>) (publish_ticks E s)"
  have rep1: "la_rep (active_threads s1) xs" using rep by (simp add: s1_def)
  from search_for_lowest_result[OF rep1 nmi] obtain m where "search_for_lowest E s1 = Inr m"
    by blast
  from search_for_lowest_waiting_result[OF rep1 nmi small this]
  show ?thesis
    by (auto simp: determine_not_alone[OF False] Let_def s1_def[symmetric] split: prod.split)
qed

subsection \<open>The wake-up that follows, and adding ticks\<close>

lemma wake_if_ustat_other:
  "wake_if (s, w) = Inr t \<Longrightarrow> i \<noteq> lowest_tid s \<Longrightarrow> ustat t i = ustat s i"
  by (auto simp: wake_if_def wake_up_waiting_thread_def upd_event_def split: if_splits option.splits)

lemma wake_if_frame:
  assumes "wake_if (s, w) = Inr t"
  shows "ticks (clocks t j) = ticks (clocks s j)" "base_ticks (clocks t j) = base_ticks (clocks s j)"
    "us_ticks (ustat t j) = us_ticks (ustat s j)" "waiting (clocks t j) = waiting (clocks s j)"
  using assms
  by (auto simp: wake_if_def wake_up_waiting_thread_def upd_event_def split: if_splits option.splits)

lemma wake_if_nobody: "wake_if (s, -1) = Inr s"
  by (simp add: wake_if_def)

lemma add_ticks_effect:
  assumes "task_clock_add_ticks E s n = Inr t"
  shows "ticks (clocks t i) = (if i = cur E then ticks (clocks s i) + scast n else ticks (clocks s i))"
    "base_ticks (clocks t i) = base_ticks (clocks s i)"
    "us_ticks (ustat t (cur E)) = get_clock_ticks t (cur E)"
    "get_clock_ticks t (cur E) = get_clock_ticks s (cur E) + scast n"
proof -
  let ?s = "publish_ticks E (inc_clock_ticks_no_chunk_add s (cur E) (scast n))"
  from assms obtain u w where u: "determine_lowest_and_notify_or_wait E ?s = Inr (u, w)" "wake_if (u, w) = Inr t"
    by (cases "determine_lowest_and_notify_or_wait E ?s") (auto simp: task_clock_add_ticks_def Let_def)
  have c: "ticks (clocks t j) = ticks (clocks ?s j)" "base_ticks (clocks t j) = base_ticks (clocks ?s j)" for j
    by (simp_all only: wake_if_frame[OF u(2)] determine_frame(6,7)[OF u(1)])
  show "ticks (clocks t i) = (if i = cur E then ticks (clocks s i) + scast n else ticks (clocks s i))"
    "base_ticks (clocks t i) = base_ticks (clocks s i)"
    using c[of i] by (simp_all add: inc_clock_ticks_no_chunk_add_def)
  have "us_ticks (ustat t (cur E)) = get_clock_ticks ?s (cur E)"
    by (simp only: wake_if_frame[OF u(2)] determine_frame(9)[OF u(1)])
  also have "\<dots> = get_clock_ticks t (cur E)" by (simp only: get_clock_ticks_def c)
  finally show "us_ticks (ustat t (cur E)) = get_clock_ticks t (cur E)" .
  show "get_clock_ticks t (cur E) = get_clock_ticks s (cur E) + scast n"
    using c[of "cur E"] by (simp add: get_clock_ticks_def inc_clock_ticks_no_chunk_add_def)
qed

end
