(* ===== verification/Clock_Invariant.thy ===== *)
theory Clock_Invariant
  imports Clock_Decision
begin

text \<open>
  The invariant of the group, kept by every handler, and the states the module can reach:
  any sequence of handler calls, by any threads, interleaved with what the hardware and
  user space do to the event counts and the user pages.
\<close>

subsection \<open>The invariant\<close>

text \<open>
  \<open>M\<close> is \<open>TASK_CLOCK_MAX_THREADS\<close>. The active threads form a well-formed list of valid ids,
  none of which is inactive; a valid thread that sleeps is waiting or inactive; the lowest
  thread is a valid id or \<open>-1\<close>.
\<close>

definition valid_id :: "int \<Rightarrow> tid \<Rightarrow> bool" where
  "valid_id M i \<longleftrightarrow> 0 \<le> i \<and> i < M"

definition tc_inv :: "int \<Rightarrow> kstate \<Rightarrow> bool" where
  "tc_inv M s \<longleftrightarrow>
     (\<exists>xs. la_rep (active_threads s) xs \<and> (\<forall>i\<in>set xs. valid_id M i \<and> \<not> inactive (clocks s i))) \<and>
     (\<forall>i. valid_id M i \<longrightarrow> sleeping (clocks s i) \<longrightarrow> waiting (clocks s i) \<or> inactive (clocks s i)) \<and>
     (lowest_tid s = -1 \<or> valid_id M (lowest_tid s))"

text \<open>What the kernel guarantees of a call from process context.\<close>

definition call_ok :: "int \<Rightarrow> env \<Rightarrow> bool" where
  "call_ok M E \<longleftrightarrow> task_clock_max_threads E = M \<and> valid_id M (cur E) \<and> \<not> in_nmi E"

lemma call_okD:
  assumes "call_ok M E"
  shows "valid_id M (cur E)" "0 \<le> cur E" "\<not> in_nmi E" "task_clock_max_threads E = M"
  using assms by (auto simp: call_ok_def valid_id_def)

lemma valid_id_in_range: "valid_id M i \<Longrightarrow> M \<le> LISTARRAY_MAX_SIZE \<Longrightarrow> la_in_range i"
  by (simp add: valid_id_def la_in_range_def)

lemma tc_invE:
  assumes "tc_inv M s"
  obtains xs where "la_rep (active_threads s) xs"
    "\<forall>i\<in>set xs. valid_id M i \<and> \<not> inactive (clocks s i)"
    "\<forall>i. valid_id M i \<longrightarrow> sleeping (clocks s i) \<longrightarrow> waiting (clocks s i) \<or> inactive (clocks s i)"
    "lowest_tid s = -1 \<or> valid_id M (lowest_tid s)"
  using assms by (auto simp: tc_inv_def)

lemma tc_inv_same_sched: "same_sched s t \<Longrightarrow> tc_inv M t = tc_inv M s"
  by (simp add: tc_inv_def same_sched_def)

named_theorems inv_intro

lemma tc_inv_by_sched [inv_intro]: "tc_inv M s \<Longrightarrow> same_sched s t \<Longrightarrow> tc_inv M t"
  by (simp add: tc_inv_same_sched)

lemma tc_inv_flags [simp]:
  "tc_inv M (s\<lparr>notification_needed := b\<rparr>) = tc_inv M s"
  "tc_inv M (s\<lparr>nmi_new_low := b\<rparr>) = tc_inv M s"
  "tc_inv M (s\<lparr>lowest_ticks := x\<rparr>) = tc_inv M s"
  "tc_inv M (s\<lparr>user_status_arr := p\<rparr>) = tc_inv M s"
  "tc_inv M (s\<lparr>start_counter := n\<rparr>) = tc_inv M s"
  "tc_inv M (emit y s) = tc_inv M s"
  "tc_inv M (upd_ustat i f s) = tc_inv M s"
  "tc_inv M (publish_ticks E s) = tc_inv M s"
  by (simp_all add: tc_inv_def)

lemma tc_inv_set_lowest:
  "tc_inv M s \<Longrightarrow> l = -1 \<or> valid_id M l \<Longrightarrow> tc_inv M (s\<lparr>lowest_tid := l\<rparr>)"
  by (simp add: tc_inv_def)

lemma tc_inv_upd_clock:
  assumes "tc_inv M s"
    "inactive (f (clocks s i)) \<Longrightarrow> inactive (clocks s i)"
    "sleeping (f (clocks s i)) \<Longrightarrow> waiting (f (clocks s i)) \<or> inactive (f (clocks s i))"
  shows "tc_inv M (upd_clock i f s)"
  using assms by (auto simp: tc_inv_def)

lemma tc_inv_upd_same:
  assumes "tc_inv M s" "\<And>e. inactive (f e) = inactive e" "\<And>e. waiting (f e) = waiting e"
    "\<And>e. sleeping (f e) = sleeping e"
  shows "tc_inv M (upd_clock i f s)"
proof -
  have "inactive (clocks (upd_clock i f s) j) = inactive (clocks s j)"
    "waiting (clocks (upd_clock i f s) j) = waiting (clocks s j)"
    "sleeping (clocks (upd_clock i f s) j) = sleeping (clocks s j)" for j
    by (simp_all add: assms)
  with assms(1) show ?thesis unfolding tc_inv_def by (simp del: upd_clock_sel(1))
qed

lemma tc_inv_clear [inv_intro]: "tc_inv M s \<Longrightarrow> tc_inv M (clear_entry_state E s)"
  by (auto simp: tc_inv_def)

lemma tc_inv_clear_by_id [inv_intro]: "tc_inv M s \<Longrightarrow> tc_inv M (clear_entry_state_by_id E s i)"
  by (auto simp: clear_entry_state_by_id_def intro: tc_inv_upd_clock)

subsection \<open>The steps of the handlers\<close>

lemma same_sched_wake_if: "wake_if (s, w) = Inr t \<Longrightarrow> same_sched s t"
  by (auto simp: wake_if_def wake_up_waiting_thread_def same_sched_upd_ustat same_sched_emit
      same_sched_upd_event split: if_splits option.splits)

lemma tc_inv_wake_if [inv_intro]: "tc_inv M s \<Longrightarrow> wake_if (s, w) = Inr t \<Longrightarrow> tc_inv M t"
  using same_sched_wake_if tc_inv_same_sched by blast

lemma least_of_mem: "least_of s {i \<in> set xs. P i} l \<Longrightarrow> l \<in> set xs \<and> P l"
  by (simp add: least_of_def)

lemma determine_lowest_valid:
  assumes "tc_inv M s" "call_ok M E" "determine_lowest_and_notify_or_wait E s = Inr (t, w)"
  shows "lowest_tid t = -1 \<or> valid_id M (lowest_tid t)"
proof -
  from assms(1) obtain xs where xs: "la_rep (active_threads s) xs"
    "\<forall>i\<in>set xs. valid_id M i \<and> \<not> inactive (clocks s i)"
    "lowest_tid s = -1 \<or> valid_id M (lowest_tid s)" by (rule tc_invE)
  from determine_verdict[OF xs(1) _ _ assms(3)] call_okD[OF assms(2)]
  obtain v where "verdict_ok E xs s t w v" by blast
  with xs(2,3) call_okD(1)[OF assms(2)] show ?thesis
    by (auto simp: verdict_ok_def split: verdict.splits dest!: least_of_mem)
qed

lemma determine_cur_flags:
  assumes "la_rep (active_threads s) xs" "call_ok M E"
    "determine_lowest_and_notify_or_wait E s = Inr (t, w)"
  shows "named_state E t \<or> waiting_state E s t"
proof -
  from determine_verdict[OF assms(1) call_okD(3,2)[OF assms(2)] assms(3)]
  obtain v where "verdict_ok E xs s t w v \<and>
    (if is_named v then named_state E t else waiting_state E s t)" ..
  then show ?thesis by (cases "is_named v") simp_all
qed

lemma tc_inv_determine [inv_intro]:
  assumes "tc_inv M s" "call_ok M E" "determine_lowest_and_notify_or_wait E s = Inr (t, w)"
  shows "tc_inv M t"
proof -
  from assms(1) obtain xs where xs: "la_rep (active_threads s) xs"
    "\<forall>i\<in>set xs. valid_id M i \<and> \<not> inactive (clocks s i)"
    "\<forall>i. valid_id M i \<longrightarrow> sleeping (clocks s i) \<longrightarrow> waiting (clocks s i) \<or> inactive (clocks s i)"
    by (rule tc_invE)
  note fr = determine_frame[OF assms(3)]
  from determine_cur_flags[OF xs(1) assms(2,3)]
  have cur: "\<not> inactive (clocks t (cur E)) \<or> inactive (clocks t (cur E)) = inactive (clocks s (cur E))"
    "sleeping (clocks t (cur E)) \<longrightarrow> waiting (clocks t (cur E))"
    by (auto simp: named_state_def waiting_state_def)
  have "\<forall>i\<in>set xs. valid_id M i \<and> \<not> inactive (clocks t i)"
    using xs(2) cur(1) fr(4) by metis
  moreover have "\<forall>i. valid_id M i \<longrightarrow> sleeping (clocks t i) \<longrightarrow> waiting (clocks t i) \<or> inactive (clocks t i)"
    using xs(3) cur(2) fr(4) by metis
  ultimately show ?thesis
    using xs(1) determine_lowest_valid[OF assms] fr(1) by (auto simp: tc_inv_def)
qed

lemma tc_inv_determine_wake:
  assumes "tc_inv M s" "call_ok M E" "bindE (determine_lowest_and_notify_or_wait E s) wake_if = Inr t"
  shows "tc_inv M t"
proof -
  from assms(3) obtain u w where u: "determine_lowest_and_notify_or_wait E s = Inr (u, w)"
    and w: "wake_if (u, w) = Inr t"
    by (cases "determine_lowest_and_notify_or_wait E s") auto
  from tc_inv_wake_if[OF tc_inv_determine[OF assms(1,2) u] w] show ?thesis .
qed

lemma tc_inv_mark_as_inactive:
  assumes "tc_inv M s" "M \<le> LISTARRAY_MAX_SIZE" "valid_id M i" "mark_as_inactive s i = Inr t"
  shows "tc_inv M t" "inactive (clocks t i)" "\<exists>xs. la_rep (active_threads t) xs \<and> i \<notin> set xs"
proof -
  from assms(1) obtain xs where xs: "la_rep (active_threads s) xs"
    "\<forall>i\<in>set xs. valid_id M i \<and> \<not> inactive (clocks s i)" by (rule tc_invE)
  from assms(4) obtain la where la: "listarray_remove (active_threads s) i = Inr la"
    and t: "t = upd_clock i (\<lambda>e. e\<lparr>inactive := True\<rparr>) s\<lparr>active_threads := la\<rparr>"
    by (auto simp: mark_as_inactive_def Let_def)
  from la.del_Inr[OF xs(1) valid_id_in_range[OF assms(3,2)] la]
  have rep: "la_rep la (remove1 i xs)" by simp
  moreover have "i \<notin> set (remove1 i xs)" "set (remove1 i xs) \<subseteq> set xs"
    using la_rep_distinct[OF xs(1)] by (auto simp: set_remove1_subset)
  ultimately show "tc_inv M t" "inactive (clocks t i)"
    "\<exists>xs. la_rep (active_threads t) xs \<and> i \<notin> set xs"
    using assms(1) xs(2) by (auto simp: tc_inv_def t)
qed

lemma tc_inv_mark_as_active:
  assumes "tc_inv M s" "M \<le> LISTARRAY_MAX_SIZE" "valid_id M i" "mark_as_active s i = Inr t"
    and "\<not> sleeping (clocks s i)"
  shows "tc_inv M t"
proof -
  from assms(1) obtain xs where xs: "la_rep (active_threads s) xs"
    "\<forall>i\<in>set xs. valid_id M i \<and> \<not> inactive (clocks s i)" by (rule tc_invE)
  from assms(4) obtain la where la: "listarray_insert (active_threads s) i = Inr la"
    and t: "t = upd_clock i (\<lambda>e. e\<lparr>inactive := False\<rparr>) s\<lparr>active_threads := la\<rparr>"
    by (auto simp: mark_as_active_def Let_def)
  from la.ins_Inr[OF xs(1) valid_id_in_range[OF assms(3,2)] la]
  have "la_rep la (xs @ [i])" by simp
  with assms(1,3,5) xs(2) show ?thesis by (auto simp: tc_inv_def t)
qed

subsection \<open>Every handler keeps the invariant\<close>

lemma same_sched_if [sched_intro]:
  "(b \<Longrightarrow> same_sched s t) \<Longrightarrow> (\<not> b \<Longrightarrow> same_sched s u) \<Longrightarrow> same_sched s (if b then t else u)"
  by simp

lemma tc_inv_on_disable:
  assumes "tc_inv M s" "call_ok M E" "task_clock_on_disable E s = Inr t"
  shows "tc_inv M t"
  using assms(3) unfolding task_clock_on_disable_def Let_def
  by (rule tc_inv_determine_wake[rotated 2])
    (simp only: tc_inv_flags, rule tc_inv_by_sched[OF assms(1)],
     (intro sched_intro same_sched_refl), rule assms(2))

lemma tc_inv_add_ticks:
  assumes "tc_inv M s" "call_ok M E" "task_clock_add_ticks E s n = Inr t"
  shows "tc_inv M t"
  using assms(3) unfolding task_clock_add_ticks_def Let_def
  by (rule tc_inv_determine_wake[rotated 2])
    (simp only: tc_inv_flags, rule tc_inv_by_sched[OF assms(1)],
     (intro sched_intro same_sched_refl), rule assms(2))

lemma tc_inv_stop:
  assumes "tc_inv M s" "call_ok M E" "task_clock_entry_stop E s = Inr t"
  shows "tc_inv M t"
  using assms(3) unfolding task_clock_entry_stop_def Let_def
  by (rule tc_inv_determine_wake[rotated 2])
    (rule tc_inv_by_sched[OF assms(1)], (intro sched_intro same_sched_refl), rule assms(2))

lemma tc_inv_wait:
  assumes "tc_inv M s" "call_ok M E" "task_clock_entry_wait E s = Inr t"
  shows "tc_inv M t"
  using assms unfolding task_clock_entry_wait_def by (rule tc_inv_determine_wake)

text \<open>What \<open>task_clock_on_enable\<close> does before the decision.\<close>

lemma on_enable_steps:
  assumes "task_clock_on_enable E s = Inr t"
  obtains u v w where "logical_clock_update_overflow_period E
       (logical_clock_reset_overflow_period E
         (tick_counter_turn_on E (reset_chunk_ticks s (cur E))) (cur E)) (cur E) = Inr u"
    "determine_lowest_and_notify_or_wait E
       (if userspace_reading (clocks u (cur E))
        then logical_clock_set_perf_counter E
               (upd_clock (cur E) (\<lambda>e. e\<lparr>userspace_reading := False\<rparr>) u) (cur E)
        else u) = Inr (v, w)"
    "wake_if (clear_entry_state E (if lowest_tid v = cur E
       then v\<lparr>notification_needed := True, nmi_new_low := False\<rparr> else v), w) = Inr t"
proof -
  let ?s1 = "logical_clock_reset_overflow_period E
               (tick_counter_turn_on E (reset_chunk_ticks s (cur E))) (cur E)"
  let ?f = "\<lambda>u. if userspace_reading (clocks u (cur E))
                  then logical_clock_set_perf_counter E
                         (upd_clock (cur E) (\<lambda>e. e\<lparr>userspace_reading := False\<rparr>) u) (cur E)
                  else u"
  from assms obtain u where u: "logical_clock_update_overflow_period E ?s1 (cur E) = Inr u"
    and rest: "bindE (determine_lowest_and_notify_or_wait E (?f u)) (\<lambda>(s, lowest).
       wake_if (clear_entry_state E (if lowest_tid s = cur E
         then s\<lparr>notification_needed := True, nmi_new_low := False\<rparr> else s), lowest)) = Inr t"
    unfolding task_clock_on_enable_def Let_def bindE_eq_Inr[of "logical_clock_update_overflow_period E _ _"]
    by blast
  from rest obtain v w where "determine_lowest_and_notify_or_wait E (?f u) = Inr (v, w)"
    "wake_if (clear_entry_state E (if lowest_tid v = cur E
       then v\<lparr>notification_needed := True, nmi_new_low := False\<rparr> else v), w) = Inr t"
    by (cases "determine_lowest_and_notify_or_wait E (?f u)") auto
  with u show thesis by (rule that)
qed

lemma on_enable_Inr:
  assumes "task_clock_on_enable E s = Inr t"
  obtains u v w where "same_sched s u" "determine_lowest_and_notify_or_wait E u = Inr (v, w)"
    "wake_if (clear_entry_state E (if lowest_tid v = cur E
       then v\<lparr>notification_needed := True, nmi_new_low := False\<rparr> else v), w) = Inr t"
proof -
  from on_enable_steps[OF assms] obtain u v w where
    u: "logical_clock_update_overflow_period E
       (logical_clock_reset_overflow_period E
         (tick_counter_turn_on E (reset_chunk_ticks s (cur E))) (cur E)) (cur E) = Inr u"
    and d: "determine_lowest_and_notify_or_wait E
       (if userspace_reading (clocks u (cur E))
        then logical_clock_set_perf_counter E
               (upd_clock (cur E) (\<lambda>e. e\<lparr>userspace_reading := False\<rparr>) u) (cur E)
        else u) = Inr (v, w)"
    and w: "wake_if (clear_entry_state E (if lowest_tid v = cur E
       then v\<lparr>notification_needed := True, nmi_new_low := False\<rparr> else v), w) = Inr t" .
  have "same_sched s u"
    by (rule same_sched_update_overflow[OF _ u]) (intro sched_intro same_sched_refl)
  then show thesis
    by (intro that[OF _ d w] sched_intro same_sched_upd_clock) simp_all
qed

lemma tc_inv_on_enable:
  assumes "tc_inv M s" "call_ok M E" "task_clock_on_enable E s = Inr t"
  shows "tc_inv M t"
proof -
  from on_enable_Inr[OF assms(3)] obtain u v w where
    u: "same_sched s u" and v: "determine_lowest_and_notify_or_wait E u = Inr (v, w)"
    and w: "wake_if (clear_entry_state E (if lowest_tid v = cur E
       then v\<lparr>notification_needed := True, nmi_new_low := False\<rparr> else v), w) = Inr t" .
  from tc_inv_determine[OF tc_inv_by_sched[OF assms(1) u] assms(2) v] have "tc_inv M v" .
  then have "tc_inv M (if lowest_tid v = cur E
       then v\<lparr>notification_needed := True, nmi_new_low := False\<rparr> else v)"
    by simp
  from tc_inv_wake_if[OF tc_inv_clear[OF this] w] show ?thesis .
qed

lemma tc_inv_start:
  assumes "tc_inv M s" "call_ok M E" "task_clock_entry_start E s = Inr t"
  shows "tc_inv M t"
proof -
  let ?s = "logical_clock_reset_current_ticks E
              (upd_ustat (cur E) (\<lambda>u. u\<lparr>us_notifying_id := 0\<rparr>) s) (cur E)"
  from assms(3) obtain u where u: "task_clock_on_enable E ?s = Inr u"
    and t: "t = u\<lparr>start_counter := start_counter u + 1\<rparr>"
    by (auto simp: task_clock_entry_start_def Let_def)
  have "tc_inv M ?s"
    by (rule tc_inv_by_sched[OF assms(1)]) (intro sched_intro same_sched_refl)
  from tc_inv_on_enable[OF this assms(2) u] show ?thesis by (simp add: t)
qed

lemma tc_inv_start_no_notify:
  assumes "tc_inv M s"
  shows "tc_inv M (task_clock_entry_start_no_notify E s)"
  unfolding task_clock_entry_start_no_notify_def Let_def tc_inv_flags
  by (rule tc_inv_by_sched[OF assms])
    (intro sched_intro same_sched_upd_clock same_sched_refl; simp)

lemma tc_inv_stop_no_notify:
  assumes "tc_inv M s"
  shows "tc_inv M (task_clock_entry_stop_no_notify E s)"
  unfolding task_clock_entry_stop_no_notify_def
  by (rule tc_inv_by_sched[OF assms]) (intro sched_intro same_sched_refl)

lemma tc_inv_reset:
  assumes "tc_inv M s"
  shows "tc_inv M (task_clock_entry_reset E s)"
  unfolding task_clock_entry_reset_def by (rule tc_inv_upd_same[OF assms]) simp_all

lemma tc_inv_woke_up:
  assumes "tc_inv M s"
  shows "tc_inv M (task_clock_entry_woke_up E s)"
  using assms by (auto simp: tc_inv_def task_clock_entry_woke_up_def)

text \<open>A halting thread is never named: it has left the list and is inactive.\<close>

lemma halt_not_named:
  assumes "la_rep (active_threads s) xs" "cur E \<notin> set xs" "inactive (clocks s (cur E))"
    and "call_ok M E" "determine_lowest_and_notify_or_wait E s = Inr (t, w)"
  shows "waiting_state E s t" "lowest_tid t \<noteq> cur E"
proof -
  obtain v where v: "verdict_ok E xs s t w v \<and>
      (if is_named v then named_state E t else waiting_state E s t)"
    using determine_verdict[OF assms(1) call_okD(3,2)[OF assms(4)] assms(5)] ..
  then have "\<not> is_named v"
    using assms(2,3) by (cases v) (auto simp: verdict_ok_def current_is_only_active_thread_def least_of_def)
  with v show "waiting_state E s t" "lowest_tid t \<noteq> cur E"
    by (cases v; simp add: verdict_ok_def)+
qed

lemma halt_Inr:
  assumes "task_clock_entry_halt E s = Inr t"
  obtains u v w where "mark_as_inactive s (cur E) = Inr u"
    "determine_lowest_and_notify_or_wait E u = Inr (v, w)"
    "wake_if (upd_clock (cur E) (\<lambda>e. e\<lparr>waiting := False\<rparr>) v, w) = Inr t"
proof -
  from assms obtain u where u: "mark_as_inactive s (cur E) = Inr u"
    and rest: "bindE (determine_lowest_and_notify_or_wait E u) (\<lambda>(s, lowest).
       wake_if (upd_clock (cur E) (\<lambda>e. e\<lparr>waiting := False\<rparr>) s, lowest)) = Inr t"
    unfolding task_clock_entry_halt_def bindE_eq_Inr[of "mark_as_inactive s (cur E)"] by blast
  then show thesis
    by (cases "determine_lowest_and_notify_or_wait E u") (auto intro: that)
qed

lemma tc_inv_halt:
  assumes "tc_inv M s" "call_ok M E" "M \<le> LISTARRAY_MAX_SIZE" "task_clock_entry_halt E s = Inr t"
  shows "tc_inv M t"
proof -
  from halt_Inr[OF assms(4)] obtain u v w where u: "mark_as_inactive s (cur E) = Inr u"
    and v: "determine_lowest_and_notify_or_wait E u = Inr (v, w)"
    and w: "wake_if (upd_clock (cur E) (\<lambda>e. e\<lparr>waiting := False\<rparr>) v, w) = Inr t" .
  note in_u = tc_inv_mark_as_inactive[OF assms(1,3) call_okD(1)[OF assms(2)] u]
  from in_u(3) obtain xs where xs: "la_rep (active_threads u) xs" "cur E \<notin> set xs" by blast
  have "inactive (clocks v (cur E))"
    using halt_not_named(1)[OF xs in_u(2) assms(2) v] in_u(2) by (simp add: waiting_state_def)
  with tc_inv_determine[OF in_u(1) assms(2) v]
  have "tc_inv M (upd_clock (cur E) (\<lambda>e. e\<lparr>waiting := False\<rparr>) v)"
    by (auto intro: tc_inv_upd_clock)
  from tc_inv_wake_if[OF this w] show ?thesis .
qed

lemma tc_inv_new_lowest:
  assumes "tc_inv M s" "call_ok M E" "new_lowest E s (cur E) = Inr l" "l = cur E"
  shows "valid_id M l"
  using assms call_okD(1) by simp

lemma activate_Inr:
  assumes "task_clock_entry_activate E s = Inr t"
  obtains u v l where "mark_as_active (reset_chunk_ticks (clear_entry_state E s) (cur E)) (cur E) = Inr u"
    "same_sched u v" "new_lowest E v (cur E) = Inr l"
    "t = (if l \<ge> 0 \<and> l = cur E
          then upd_ustat (cur E) (\<lambda>u. u\<lparr>us_lowest_clock := 1\<rparr>)
                 (v\<lparr>notification_needed := False, lowest_tid := l\<rparr>)
          else v)"
proof -
  let ?g = "\<lambda>s. upd_clock (cur E) (\<lambda>e. e\<lparr>userspace_reading := False\<rparr>)
     (upd_ustat (cur E) (\<lambda>u. u\<lparr>us_notifying_id := 0, us_notifying_clock := 666,
                   us_notifying_sample := 666, us_hit_bounded_fence := 0\<rparr>) s)"
  from assms obtain u where
    u: "mark_as_active (reset_chunk_ticks (clear_entry_state E s) (cur E)) (cur E) = Inr u"
    and "bindE (logical_clock_update_overflow_period E
                  (logical_clock_reset_overflow_period E u (cur E)) (cur E)) (\<lambda>s.
         bindE (new_lowest E (?g s) (cur E)) (\<lambda>new_low.
            Inr (if new_low \<ge> 0 \<and> new_low = cur E
                 then upd_ustat (cur E) (\<lambda>u. u\<lparr>us_lowest_clock := 1\<rparr>)
                        ((?g s)\<lparr>notification_needed := False, lowest_tid := new_low\<rparr>)
                 else ?g s))) = Inr t"
    unfolding task_clock_entry_activate_def Let_def bindE_eq_Inr[of "mark_as_active _ _"] by blast
  then obtain v l where v: "logical_clock_update_overflow_period E
                  (logical_clock_reset_overflow_period E u (cur E)) (cur E) = Inr v"
    and l: "new_lowest E (?g v) (cur E) = Inr l"
    and t: "t = (if l \<ge> 0 \<and> l = cur E
          then upd_ustat (cur E) (\<lambda>u. u\<lparr>us_lowest_clock := 1\<rparr>)
                 ((?g v)\<lparr>notification_needed := False, lowest_tid := l\<rparr>)
          else ?g v)"
    unfolding bindE_eq_Inr by blast
  have "same_sched u v"
    by (rule same_sched_update_overflow[OF _ v]) (intro sched_intro same_sched_refl)
  then have "same_sched u (?g v)"
    by (intro same_sched_upd_clock sched_intro) simp_all
  from that[OF u this l t] show thesis .
qed

lemma tc_inv_activate:
  assumes "tc_inv M s" "call_ok M E" "M \<le> LISTARRAY_MAX_SIZE" "task_clock_entry_activate E s = Inr t"
  shows "tc_inv M t"
proof -
  from activate_Inr[OF assms(4)] obtain u v l where
    u: "mark_as_active (reset_chunk_ticks (clear_entry_state E s) (cur E)) (cur E) = Inr u"
    and v: "same_sched u v" and l: "new_lowest E v (cur E) = Inr l"
    and t: "t = (if l \<ge> 0 \<and> l = cur E
          then upd_ustat (cur E) (\<lambda>u. u\<lparr>us_lowest_clock := 1\<rparr>)
                 (v\<lparr>notification_needed := False, lowest_tid := l\<rparr>)
          else v)" .
  have "tc_inv M (reset_chunk_ticks (clear_entry_state E s) (cur E))"
    by (rule tc_inv_by_sched[OF tc_inv_clear[OF assms(1), of E]]) (intro sched_intro same_sched_refl)
  then have "tc_inv M u"
    by (rule tc_inv_mark_as_active[OF _ assms(3) call_okD(1)[OF assms(2)] u]) (simp add: tc_macro)
  with v have "tc_inv M v" by (rule tc_inv_by_sched[rotated])
  then show ?thesis
    using t call_okD(1)[OF assms(2)] by (auto intro: tc_inv_set_lowest)
qed

lemma tc_inv_activate_other:
  assumes "tc_inv M s" "call_ok M E" "M \<le> LISTARRAY_MAX_SIZE"
    "task_clock_entry_activate_other E s i = Inr t"
  shows "tc_inv M t"
proof -
  let ?s1 = "if \<not> initialized (clocks s i)
             then upd_clock i (\<lambda>e. e\<lparr>base_ticks := get_clock_ticks s (cur E) + 1, ticks := 0\<rparr>) s else s"
  let ?s3 = "clear_entry_state_by_id E (upd_clock i (\<lambda>e. e\<lparr>initialized := True\<rparr>) ?s1) i"
  have vt: "valid_tid E i"
    using assms(4) by (simp add: task_clock_entry_activate_other_def split: if_splits)
  then have i: "valid_id M i"
    using call_okD(4)[OF assms(2)] by (simp add: valid_tid_def valid_id_def)
  have "bindE (mark_as_active ?s3 i) (\<lambda>s.
      Inr (if lowest_tid (reset_chunk_ticks s i) < 0 \<or>
              clock_is_lower (reset_chunk_ticks s i) i (lowest_tid (reset_chunk_ticks s i))
           then upd_ustat (cur E) (\<lambda>u. u\<lparr>us_activated_lowest := 1\<rparr>) (reset_chunk_ticks s i)
           else reset_chunk_ticks s i)) = Inr t"
    using assms(4) vt
    by (simp only: task_clock_entry_activate_other_def Let_def not_True_eq_False if_False)
  then obtain u where u: "mark_as_active ?s3 i = Inr u"
    and t: "t = (if lowest_tid (reset_chunk_ticks u i) < 0 \<or>
                    clock_is_lower (reset_chunk_ticks u i) i (lowest_tid (reset_chunk_ticks u i))
                 then upd_ustat (cur E) (\<lambda>u. u\<lparr>us_activated_lowest := 1\<rparr>) (reset_chunk_ticks u i)
                 else reset_chunk_ticks u i)"
    unfolding bindE_eq_Inr by blast
  have "tc_inv M ?s1" using assms(1) by (simp add: tc_inv_upd_same)
  then have "tc_inv M (upd_clock i (\<lambda>e. e\<lparr>initialized := True\<rparr>) ?s1)"
    by (rule tc_inv_upd_same) simp_all
  from tc_inv_clear_by_id[OF this] have "tc_inv M ?s3" .
  then have "tc_inv M u"
    by (rule tc_inv_mark_as_active[OF _ assms(3) i u]) (simp add: clear_entry_state_by_id_def)
  then have "tc_inv M (reset_chunk_ticks u i)"
    by (rule tc_inv_by_sched) (intro sched_intro same_sched_refl)
  then show ?thesis by (simp add: t)
qed

lemma tc_inv_sleep_round:
  assumes "tc_inv M s" "call_ok M E" "sleep_round E s = Inr (t, w, again)"
  shows "tc_inv M t"
proof -
  from assms(3) obtain u l where u: "determine_lowest_and_notify_or_wait E s = Inr (u, l)"
    and t: "t = (if waiting (clocks u (cur E))
                 then upd_clock (cur E) (\<lambda>e. e\<lparr>sleeping := True\<rparr>) u else u)"
    by (cases "determine_lowest_and_notify_or_wait E s")
      (auto simp: sleep_round_def Let_def split: if_splits)
  from tc_inv_determine[OF assms(1,2) u] show ?thesis
    by (auto simp: t intro: tc_inv_upd_clock)
qed

lemma tc_inv_sleep_loop:
  assumes "\<forall>E\<in>set Es. call_ok M E" "tc_inv M s" "sleep_loop Es s = Inr (t, w)"
  shows "tc_inv M t"
  using assms
proof (induction Es arbitrary: s)
  case Nil
  then show ?case by simp
next
  case (Cons E Es)
  from Cons.prems(3) obtain u l again where u: "sleep_round E s = Inr (u, l, again)"
    and rest: "(if again then sleep_loop Es u else Inr (u, l)) = Inr (t, w)"
    by (cases "sleep_round E s") auto
  have "tc_inv M u" using tc_inv_sleep_round[OF Cons.prems(2) _ u] Cons.prems(1) by simp
  with Cons.IH[of u] Cons.prems(1) rest show ?case by (auto split: if_splits)
qed

lemma tc_inv_sleep:
  assumes "tc_inv M s" "\<forall>E\<in>set Es. call_ok M E" "task_clock_entry_sleep Es s = Inr t"
  shows "tc_inv M t"
proof -
  from assms(3) obtain u w where u: "sleep_loop Es s = Inr (u, w)" and w: "wake_if (u, w) = Inr t"
    by (cases "sleep_loop Es s") (auto simp: task_clock_entry_sleep_def)
  from tc_inv_wake_if[OF tc_inv_sleep_loop[OF assms(2,1) u] w] show ?thesis .
qed

lemma tc_inv_notify:
  assumes "tc_inv M s" "call_ok M E" "task_clock_notify_waiting_threads E s = Inr t"
  shows "tc_inv M t"
proof -
  from assms(1) obtain xs where xs: "la_rep (active_threads s) xs"
    "\<forall>i\<in>set xs. valid_id M i \<and> \<not> inactive (clocks s i)" by (rule tc_invE)
  from assms(3) obtain l where l: "search_for_lowest_waiting E s = Inr l"
    and w: "wake_if
       (if l \<ge> 0 \<and> thread_is_waiting s l
        then if notification_needed (set_new_low s l) \<or> nmi_new_low (set_new_low s l)
             then ((set_new_low s l)\<lparr>nmi_new_low := False, notification_needed := False\<rparr>,
                   lowest_tid ((set_new_low s l)\<lparr>nmi_new_low := False, notification_needed := False\<rparr>))
             else (set_new_low s l, -1)
        else (s, -1)) = Inr t"
    unfolding task_clock_notify_waiting_threads_def Let_def bindE_eq_Inr by blast
  have "0 \<le> l \<Longrightarrow> valid_id M l"
    using search_for_lowest_waiting_Inr[OF xs(1) call_okD(3)[OF assms(2)] l] xs(2)
    by (auto dest: least_of_mem)
  then have "0 \<le> l \<Longrightarrow> tc_inv M (set_new_low s l)"
    using assms(1) by (simp add: set_new_low_def tc_inv_def)
  with w assms(1) show ?thesis
    by (auto split: if_splits dest: tc_inv_wake_if[rotated])
qed

lemma tc_inv_overflow_handler:
  assumes "tc_inv M s" "task_clock_overflow_handler E s flags = Inr (t, flags')"
  shows "tc_inv M t"
  using assms
  by (auto simp: task_clock_overflow_handler_def Let_def split: if_splits)

lemma tc_inv_update_period:
  assumes "tc_inv M s" "task_clock_entry_overflow_update_period E s = Inr t"
  shows "tc_inv M t"
proof (cases "tick_counter_is_running E s")
  case True
  with assms(2) have "logical_clock_update_overflow_period E
      (logical_clock_update_clock_ticks E s (cur E)) (cur E) = Inr t"
    by (simp add: task_clock_entry_overflow_update_period_def)
  then have "same_sched s t"
    by (rule same_sched_update_overflow[rotated]) (intro sched_intro same_sched_refl)
  then show ?thesis by (rule tc_inv_by_sched[OF assms(1)])
qed (use assms in \<open>simp add: task_clock_entry_overflow_update_period_def\<close>)

lemma tc_inv_single_step:
  assumes "tc_inv M s" "task_clock_entry_is_singlestep E s flags = (t, flags', r)"
  shows "tc_inv M t"
  using tc_inv_by_sched[OF assms(1) same_sched_on_single_step[OF same_sched_refl, of s E flags]] assms(2)
  by (simp add: task_clock_entry_is_singlestep_def)

lemma tc_inv_entry_init:
  assumes "tc_inv M s" "task_clock_entry_init E s ev a pte = Inr t"
  shows "tc_inv M t"
proof -
  let ?s1 = "if \<not> initialized (clocks s (cur E))
             then upd_clock (cur E) (\<lambda>e. e\<lparr>ticks := 0, base_ticks := 0\<rparr>) s else s"
  let ?s2 = "reset_chunk_ticks (upd_clock (cur E) (\<lambda>e. e\<lparr>initialized := True,
                userspace_reading := False, event := ev, count_ticks := 0\<rparr>) ?s1) (cur E)"
  let ?s3 = "tick_counter_turn_off E (clear_entry_state E ?s2)"
  have "tc_inv M ?s1" using assms(1) by (simp add: tc_inv_upd_same)
  then have "tc_inv M ?s2"
    unfolding reset_chunk_ticks_def by (intro tc_inv_upd_same) simp_all
  then have "tc_inv M (clear_entry_state E ?s2)" by (rule tc_inv_clear)
  then have inv: "tc_inv M ?s3"
    by (rule tc_inv_by_sched) (intro same_sched_turn_off same_sched_refl)
  from assms(2) obtain u where u: "(if cur E = 0 \<and> user_status_arr ?s3 = None
                then case pte (user_page_addr a) of
                       None \<Rightarrow> Inl BugOn
                     | Some p \<Rightarrow> Inr (?s3\<lparr>user_status_arr := Some (unat (page_offset a))\<rparr>)
                else Inr ?s3) = Inr u"
    and t: "t = upd_ustat (cur E) (\<lambda>u. u\<lparr>us_hwc_idx := - 1\<rparr>) u"
    unfolding task_clock_entry_init_def Let_def bindE_eq_Inr by blast
  from u inv have "tc_inv M u" by (auto split: if_splits option.splits)
  with t show ?thesis by simp
qed

lemma init_entries_clocks:
  "clocks (fold (\<lambda>i. upd_clock (int i) init_entry) [0..<n] s) j =
     (if 0 \<le> j \<and> j < int n then init_entry (clocks s j) else clocks s j)"
  by (induction n) auto

lemma init_entries_same:
  "active_threads (fold (\<lambda>i. upd_clock (int i) init_entry) ns s) = active_threads s"
  "lowest_tid (fold (\<lambda>i. upd_clock (int i) init_entry) ns s) = lowest_tid s"
  by (induction ns arbitrary: s) simp_all

lemma tc_inv_group_init:
  assumes "task_clock_max_threads E = M"
  shows "tc_inv M (task_clock_group_init E s)"
  using assms la.rep_init
  by (auto simp: tc_inv_def task_clock_group_init_def init_task_clock_entries_def Let_def
      init_entries_clocks init_entries_same init_entry_def valid_id_def)

end
