(* ===== verification/Clock_System.thy ===== *)
theory Clock_System
  imports Clock_Invariant
begin

text \<open>
  The module as a transition system, and the loop of \<open>task_clock_entry_sleep\<close>.
\<close>

subsection \<open>Steps and reachable states\<close>

text \<open>
  One step is one call of a handler of \<open>task_clock_func\<close> (or of the interrupt work that
  the overflow handler queues) by any thread, or a change that hardware and user space make
  on their own: to the event counts, the counters, the flags and the user pages, never to
  what the module schedules by.
\<close>

inductive tc_step :: "int \<Rightarrow> kstate \<Rightarrow> kstate \<Rightarrow> bool" for M where
  entry_init: "call_ok M E \<Longrightarrow> task_clock_entry_init E s ev a (pte :: u64 \<Rightarrow> unit option) = Inr t \<Longrightarrow> tc_step M s t"
| activate: "call_ok M E \<Longrightarrow> task_clock_entry_activate E s = Inr t \<Longrightarrow> tc_step M s t"
| activate_other: "call_ok M E \<Longrightarrow> task_clock_entry_activate_other E s i = Inr t \<Longrightarrow> tc_step M s t"
| halt: "call_ok M E \<Longrightarrow> task_clock_entry_halt E s = Inr t \<Longrightarrow> tc_step M s t"
| on_disable: "call_ok M E \<Longrightarrow> task_clock_on_disable E s = Inr t \<Longrightarrow> tc_step M s t"
| on_enable: "call_ok M E \<Longrightarrow> task_clock_on_enable E s = Inr t \<Longrightarrow> tc_step M s t"
| add_ticks: "call_ok M E \<Longrightarrow> task_clock_add_ticks E s n = Inr t \<Longrightarrow> tc_step M s t"
| wait: "call_ok M E \<Longrightarrow> task_clock_entry_wait E s = Inr t \<Longrightarrow> tc_step M s t"
| sleep: "\<forall>E\<in>set Es. call_ok M E \<Longrightarrow> task_clock_entry_sleep Es s = Inr t \<Longrightarrow> tc_step M s t"
| woke_up: "call_ok M E \<Longrightarrow> tc_step M s (task_clock_entry_woke_up E s)"
| reset: "call_ok M E \<Longrightarrow> tc_step M s (task_clock_entry_reset E s)"
| stop: "call_ok M E \<Longrightarrow> task_clock_entry_stop E s = Inr t \<Longrightarrow> tc_step M s t"
| stop_no_notify: "call_ok M E \<Longrightarrow> tc_step M s (task_clock_entry_stop_no_notify E s)"
| start: "call_ok M E \<Longrightarrow> task_clock_entry_start E s = Inr t \<Longrightarrow> tc_step M s t"
| start_no_notify: "call_ok M E \<Longrightarrow> tc_step M s (task_clock_entry_start_no_notify E s)"
| notify: "call_ok M E \<Longrightarrow> task_clock_notify_waiting_threads E s = Inr t \<Longrightarrow> tc_step M s t"
| overflow: "task_clock_overflow_handler E s flags = Inr (t, flags') \<Longrightarrow> tc_step M s t"
| update_period: "task_clock_entry_overflow_update_period E s = Inr t \<Longrightarrow> tc_step M s t"
| single_step: "task_clock_entry_is_singlestep E s flags = (t, flags', r) \<Longrightarrow> tc_step M s t"
| machine: "same_sched s t \<Longrightarrow> \<forall>i. ticks (clocks t i) = ticks (clocks s i) \<Longrightarrow> tc_step M s t"

inductive tc_reach :: "int \<Rightarrow> kstate \<Rightarrow> bool" for M where
  start: "task_clock_max_threads E = M \<Longrightarrow> tc_reach M (task_clock_group_init E s)"
| step: "tc_reach M s \<Longrightarrow> tc_step M s t \<Longrightarrow> tc_reach M t"

lemma tc_step_inv:
  assumes "tc_step M s t" "M \<le> LISTARRAY_MAX_SIZE" "tc_inv M s"
  shows "tc_inv M t"
  using assms
proof (induction rule: tc_step.induct)
  case entry_init then show ?case by (blast intro: tc_inv_entry_init)
next
  case activate then show ?case by (blast intro: tc_inv_activate)
next
  case activate_other then show ?case by (blast intro: tc_inv_activate_other)
next
  case halt then show ?case by (blast intro: tc_inv_halt)
next
  case on_disable then show ?case by (blast intro: tc_inv_on_disable)
next
  case on_enable then show ?case by (blast intro: tc_inv_on_enable)
next
  case add_ticks then show ?case by (blast intro: tc_inv_add_ticks)
next
  case wait then show ?case by (blast intro: tc_inv_wait)
next
  case sleep then show ?case by (blast intro: tc_inv_sleep)
next
  case woke_up then show ?case by (blast intro: tc_inv_woke_up)
next
  case reset then show ?case by (blast intro: tc_inv_reset)
next
  case stop then show ?case by (blast intro: tc_inv_stop)
next
  case stop_no_notify then show ?case by (blast intro: tc_inv_stop_no_notify)
next
  case start then show ?case by (blast intro: tc_inv_start)
next
  case start_no_notify then show ?case by (blast intro: tc_inv_start_no_notify)
next
  case notify then show ?case by (blast intro: tc_inv_notify)
next
  case overflow then show ?case by (blast intro: tc_inv_overflow_handler)
next
  case update_period then show ?case by (blast intro: tc_inv_update_period)
next
  case single_step then show ?case by (blast intro: tc_inv_single_step)
next
  case machine then show ?case by (blast intro: tc_inv_by_sched)
qed

lemma tc_reach_inv:
  assumes "tc_reach M s" "M \<le> LISTARRAY_MAX_SIZE"
  shows "tc_inv M s"
  using assms
  by (induction rule: tc_reach.induct) (blast intro: tc_inv_group_init tc_step_inv)+

subsection \<open>Reaching the parts of the invariant\<close>

lemma reach_activeE:
  assumes "tc_reach M s" "M \<le> LISTARRAY_MAX_SIZE"
  obtains xs where "la_rep (active_threads s) xs" "listarray_foreach (active_threads s) = Inr xs"
    "\<forall>i\<in>set xs. 0 \<le> i \<and> i < M \<and> \<not> inactive (clocks s i)"
    "lowest_tid s = -1 \<or> valid_id M (lowest_tid s)"
proof -
  from tc_invE[OF tc_reach_inv[OF assms]] obtain xs where "la_rep (active_threads s) xs"
    "\<forall>i\<in>set xs. valid_id M i \<and> \<not> inactive (clocks s i)" "lowest_tid s = -1 \<or> valid_id M (lowest_tid s)" .
  with that la.walk_rep show ?thesis by (auto simp: valid_id_def)
qed

subsection \<open>The sleep loop\<close>

text \<open>
  \<open>stuck E t xs\<close>: a state in which a round of the loop changes nothing that matters: every
  candidate sleeps, and the lowest of them has been notified already.
\<close>

definition all_asleep :: "kstate \<Rightarrow> int list \<Rightarrow> bool" where
  "all_asleep t xs \<longleftrightarrow> (\<forall>i\<in>set xs. candidate t i \<longrightarrow> sleeping (clocks t i))"

definition stuck_alone :: "env \<Rightarrow> kstate \<Rightarrow> int list \<Rightarrow> bool" where
  "stuck_alone E t xs \<longleftrightarrow> la_rep (active_threads t) xs \<and> current_is_only_active_thread E t \<and>
     all_asleep t xs \<and> \<not> (cur E \<in> set xs \<and> candidate t (cur E))"

definition stuck_waiting :: "env \<Rightarrow> kstate \<Rightarrow> int list \<Rightarrow> bool" where
  "stuck_waiting E t xs \<longleftrightarrow> la_rep (active_threads t) xs \<and> \<not> current_is_only_active_thread E t \<and>
     all_asleep t xs \<and> waiting (clocks t (cur E)) \<and>
     (\<forall>i\<in>set xs. candidate t i \<longrightarrow> waiting (clocks t i)) \<and>
     (\<forall>i\<in>set xs. waiting (clocks t i) \<longrightarrow> i < THREAD_ARR_SIZE) \<and>
     lowest_tid t \<noteq> cur E \<and>
     (lowest_tid t = -1 \<and> (\<forall>i\<in>set xs. \<not> candidate t i) \<or>
      0 \<le> lowest_tid t \<and> least_of t {i \<in> set xs. candidate t i} (lowest_tid t) \<and>
      \<not> notification_needed t)"

lemma count_awake_add: "count_awake s (c + d) xs = c + count_awake s d xs"
  by (induction xs arbitrary: d) (auto simp: add.assoc)

lemma count_awake_nonneg: "0 \<le> c \<Longrightarrow> 0 \<le> count_awake s c xs"
  by (induction xs arbitrary: c) auto

lemma count_awake_zero:
  "count_awake s 0 xs = 0 \<longleftrightarrow> (\<forall>i\<in>set xs. candidate s i \<longrightarrow> sleeping (clocks s i))"
proof (induction xs)
  case Nil
  then show ?case by simp
next
  case (Cons x xs)
  have "count_awake s (1 + 0) xs = 1 + count_awake s 0 xs" by (rule count_awake_add)
  moreover have "0 \<le> count_awake s 0 xs" by (rule count_awake_nonneg) simp
  ultimately show ?case using Cons by (auto simp: candidate_def)
qed

lemma active_thread_count_zero:
  assumes "la_rep (active_threads s) xs" "\<not> in_nmi E"
  shows "\<exists>n. active_thread_count E s = Inr n \<and> (n = 0 \<longleftrightarrow> all_asleep s xs)"
  using assms
  by (simp add: active_thread_count_def search_indices_list count_awake_zero all_asleep_def)

lemma search_waiting_all_waiting:
  assumes "la_rep (active_threads s) xs" "\<not> in_nmi E"
    "\<forall>i\<in>set xs. candidate s i \<longrightarrow> waiting (clocks s i)"
    "\<forall>i\<in>set xs. waiting (clocks s i) \<longrightarrow> i < THREAD_ARR_SIZE"
  shows "search_for_lowest_waiting E s = search_for_lowest E s"
proof -
  from search_for_lowest_result[OF assms(1,2)] obtain m where m: "search_for_lowest E s = Inr m"
    "m = -1 \<and> (\<forall>i\<in>set xs. \<not> candidate s i) \<or> 0 \<le> m \<and> least_of s {i \<in> set xs. candidate s i} m"
    by blast
  have "mark_waiting s (thread_arr E) xs =
      Inr (\<lambda>i. if i \<in> set xs \<and> waiting (clocks s i) then 1 else thread_arr E i)"
    using la_rep_nonneg[OF assms(1)] assms(4) by (intro mark_waiting_result) auto
  with m assms(3,4) show ?thesis
    by (auto simp: search_for_lowest_waiting_def la.walk_rep[OF assms(1)] least_of_def)
qed

lemma search_waiting_in_bounds:
  assumes rep: "la_rep (active_threads s) xs" and srch: "search_for_lowest_waiting E s = Inr l"
  shows "\<forall>i\<in>set xs. waiting (clocks s i) \<longrightarrow> i < THREAD_ARR_SIZE"
proof (intro ballI impI)
  fix i assume i: "i \<in> set xs" "waiting (clocks s i)"
  from srch obtain arr where "mark_waiting s (thread_arr E) xs = Inr arr"
    by (auto simp: search_for_lowest_waiting_def la.walk_rep[OF rep])
  with mark_waiting_overflow[OF i, of "thread_arr E"] show "i < THREAD_ARR_SIZE"
    by (cases "i < THREAD_ARR_SIZE") (simp_all)
qed

lemma stuck_cong:
  "cur E = cur E' \<Longrightarrow> stuck_alone E = stuck_alone E'"
  "cur E = cur E' \<Longrightarrow> stuck_waiting E = stuck_waiting E'"
  by (simp_all add: stuck_alone_def stuck_waiting_def current_is_only_active_thread_def fun_eq_iff)

lemma least_or_none_unique:
  assumes "l = -1 \<and> A = {} \<or> least_of s A l" "m = -1 \<and> A = {} \<or> least_of s A m"
  shows "m = l"
  using assms least_of_unique[of s A m l] by (auto simp: least_of_def)

lemma sleep_round_stuck_alone:
  assumes "stuck_alone E t xs" "\<not> in_nmi E"
  shows "\<exists>t'. sleep_round E t = Inr (t', -1, True) \<and> stuck_alone E t' xs"
proof -
  from assms(1) have rep: "la_rep (active_threads t) xs" and al: "current_is_only_active_thread E t"
    and as: "all_asleep t xs" and nc: "\<not> (cur E \<in> set xs \<and> candidate t (cur E))"
    by (simp_all add: stuck_alone_def)
  let ?t = "set_current_thread_to_lowest E
     (upd_ustat (cur E) (\<lambda>u. u\<lparr>us_single_active_thread := 1\<rparr>) (publish_ticks E t))"
  have "stuck_alone E ?t xs"
    using rep al as nc
    by (auto simp: stuck_alone_def all_asleep_def candidate_def current_is_only_active_thread_def)
  moreover from this active_thread_count_zero[of ?t xs E] assms(2)
  have "active_thread_count E ?t = Inr 0" by (auto simp: stuck_alone_def)
  then have "sleep_round E t = Inr (?t, -1, True)"
    by (simp add: sleep_round_def determine_alone[OF al])
  ultimately show ?thesis by blast
qed

lemma sleep_round_stuck_waiting:
  assumes st: "stuck_waiting E t xs" and nmi: "\<not> in_nmi E" and cur: "0 \<le> cur E"
  shows "\<exists>t'. sleep_round E t = Inr (t', -1, True) \<and> stuck_waiting E t' xs"
proof -
  let ?s1 = "upd_clock (cur E) (\<lambda>e. e\<lparr>waiting := True\<rparr>) (publish_ticks E t)"
  let ?l = "lowest_tid t"
  note d = st[unfolded stuck_waiting_def]
  have rep: "la_rep (active_threads ?s1) xs" using d by simp
  have w: "waiting (clocks ?s1 j) = waiting (clocks t j)" for j using d by simp
  have lo: "least_of ?s1 = least_of t" by (rule least_of_cong) simp
  obtain m where m: "search_for_lowest E ?s1 = Inr m"
    "m = -1 \<and> (\<forall>i\<in>set xs. \<not> candidate t i) \<or> 0 \<le> m \<and> least_of t {i \<in> set xs. candidate t i} m"
    using search_for_lowest_result[OF rep nmi] unfolding lo by auto
  let ?A = "{i \<in> set xs. candidate t i}"
  have "?l = -1 \<and> ?A = {} \<or> least_of t ?A ?l" using d by blast
  moreover have "m = -1 \<and> ?A = {} \<or> least_of t ?A m" using m(2) by blast
  ultimately have "m = ?l" by (rule least_or_none_unique)
  with m(1) have "search_for_lowest E ?s1 = Inr ?l" by simp
  moreover have "search_for_lowest_waiting E ?s1 = search_for_lowest E ?s1"
    by (rule search_waiting_all_waiting[OF rep nmi]) (use d in auto)
  ultimately have "determine_lowest_and_notify_or_wait E t =
      (case name_or_notify E ?l (note_lowest ?l ?s1) of (s, w) \<Rightarrow> Inr (refresh_lowest_ticks s, w))"
    using d by (simp add: determine_not_alone Let_def)
  moreover have "name_or_notify E ?l (note_lowest ?l ?s1) =
      (upd_ustat (cur E) (\<lambda>u. u\<lparr>us_lowest_clock := 0\<rparr>) (note_lowest ?l ?s1), -1)"
    using d by (auto simp: name_or_notify_def thread_is_waiting_def)
  ultimately have det: "determine_lowest_and_notify_or_wait E t =
      Inr (refresh_lowest_ticks (upd_ustat (cur E) (\<lambda>u. u\<lparr>us_lowest_clock := 0\<rparr>) (note_lowest ?l ?s1)), -1)"
    (is "_ = Inr (?u, -1)") by simp
  let ?t = "upd_clock (cur E) (\<lambda>e. e\<lparr>sleeping := True\<rparr>) ?u"
  have "candidate ?t = candidate t" by (auto simp: candidate_def fun_eq_iff)
  moreover have "least_of ?t = least_of t"
    by (rule least_of_cong) (auto simp: get_clock_ticks_def fun_eq_iff)
  ultimately have st': "stuck_waiting E ?t xs"
    using d by (auto simp: stuck_waiting_def all_asleep_def current_is_only_active_thread_def)
  with active_thread_count_zero[of ?t xs E] nmi have "active_thread_count E ?t = Inr 0"
    by (auto simp: stuck_waiting_def)
  then have "sleep_round E t = Inr (?t, -1, True)"
    by (simp add: sleep_round_def det)
  with st' show ?thesis by blast
qed

text \<open>A first round that does not leave the loop ends in a stuck state.\<close>

lemma sleep_round_again:
  assumes inv: "tc_inv M s" and ok: "call_ok M E" and rd: "sleep_round E s = Inr (t, w, True)"
  shows "\<exists>xs. stuck_alone E t xs \<or> stuck_waiting E t xs"
proof -
  from inv obtain xs where xs: "la_rep (active_threads s) xs"
    "\<forall>i\<in>set xs. valid_id M i \<and> \<not> inactive (clocks s i)"
    "\<forall>i. valid_id M i \<longrightarrow> sleeping (clocks s i) \<longrightarrow> waiting (clocks s i) \<or> inactive (clocks s i)"
    by (rule tc_invE)
  note nmi = call_okD(3)[OF ok] and cur = call_okD(2)[OF ok]
  from rd obtain u where det: "determine_lowest_and_notify_or_wait E s = Inr (u, w)" and w: "w < 0"
    and t: "t = (if waiting (clocks u (cur E))
                 then upd_clock (cur E) (\<lambda>e. e\<lparr>sleeping := True\<rparr>) u else u)"
    and cnt: "active_thread_count E t = Inr 0"
    by (cases "determine_lowest_and_notify_or_wait E s")
      (auto simp: sleep_round_def Let_def split: if_splits)
  note fr = determine_frame[OF det]
  have rep: "la_rep (active_threads t) xs" using xs(1) fr(1) t by simp
  from active_thread_count_zero[OF this nmi] cnt have as: "all_asleep t xs" by auto
  obtain v where v: "verdict_ok E xs s u w v"
    and st: "if is_named v then named_state E u else waiting_state E s u"
    using determine_verdict[OF xs(1) nmi cur det] by blast
  show ?thesis
  proof (cases "is_named v")
    case True
    then have nm: "named_state E u" using st by simp
    then have tu: "t = u" by (simp add: t named_state_def)
    have nc: "\<not> (cur E \<in> set xs \<and> candidate t (cur E))"
      using as nm by (auto simp: all_asleep_def tu named_state_def)
    from True v have "v = Alone"
      using nc tu nm fr(5)[of "cur E"]
      by (cases v) (auto simp: verdict_ok_def least_of_def candidate_def named_state_def)
    with v nm have "current_is_only_active_thread E t"
      by (simp add: verdict_ok_def current_is_only_active_thread_def tu fr(1) named_state_def)
    with rep as nc show ?thesis by (auto simp: stuck_alone_def)
  next
    case False
    then have ws: "waiting_state E s u" using st by simp
    have vW: "v = Waits" using False v w by (cases v) (auto simp: verdict_ok_def)
    have t': "t = upd_clock (cur E) (\<lambda>e. e\<lparr>sleeping := True\<rparr>) u"
      using ws by (simp add: t waiting_state_def)
    have cand: "candidate t = candidate s"
      using fr(4,5) ws by (auto simp: fun_eq_iff candidate_def t' waiting_state_def)
    have lo: "least_of t = least_of s"
      by (rule least_of_cong) (auto simp: fun_eq_iff get_clock_ticks_def t' fr(6,7))
    have wt: "waiting (clocks t j) = (j = cur E \<or> waiting (clocks s j))" for j
      using ws fr(4)[of j] by (auto simp: t' waiting_state_def)
    have allw: "\<forall>i\<in>set xs. candidate t i \<longrightarrow> waiting (clocks t i)"
    proof (intro ballI impI)
      fix i assume i: "i \<in> set xs" "candidate t i"
      with as have "sleeping (clocks t i)" by (simp add: all_asleep_def)
      then show "waiting (clocks t i)"
        using i(1) xs(2,3) fr(4)[of i] wt[of i] by (cases "i = cur E") (auto simp: t')
    qed
    have na: "\<not> current_is_only_active_thread E s" using v vW by (simp add: verdict_ok_def)
    let ?s1 = "upd_clock (cur E) (\<lambda>e. e\<lparr>waiting := True\<rparr>) (publish_ticks E s)"
    from det obtain l where srch: "search_for_lowest_waiting E ?s1 = Inr l"
      unfolding determine_not_alone[OF na] Let_def bindE_eq_Inr by blast
    have wt1: "waiting (clocks ?s1 j) = waiting (clocks t j)" for j by (simp add: wt)
    have rep1: "la_rep (active_threads ?s1) xs" using xs(1) by simp
    have small: "\<forall>i\<in>set xs. waiting (clocks t i) \<longrightarrow> i < THREAD_ARR_SIZE"
      using search_waiting_in_bounds[OF rep1 srch] by (simp only: wt1)
    have cs: "candidate ?s1 = candidate t" by (simp add: cand)
    have "search_for_lowest_waiting E ?s1 = search_for_lowest E ?s1"
      by (rule search_waiting_all_waiting[OF rep1 nmi]) (simp_all only: wt1 cs, rule allw, rule small)
    with srch have srch': "search_for_lowest E ?s1 = Inr l" by (simp only:)
    have "lowest_tid u = l" using det srch
      by (auto simp: determine_not_alone[OF na] Let_def name_or_notify_def split: if_splits)
    moreover have lo1: "least_of ?s1 = least_of t" by (simp add: lo least_of_cong[of ?s1 s])
    have l: "l = -1 \<and> (\<forall>i\<in>set xs. \<not> candidate t i) \<or> 0 \<le> l \<and> least_of t {i \<in> set xs. candidate t i} l"
      using search_for_lowest_Inr[OF rep1 nmi srch'] by (simp only: cs lo1)
    moreover have "0 \<le> l \<Longrightarrow> l \<noteq> cur E \<Longrightarrow> waiting (clocks s l)"
      using l allw wt[of l] by (auto dest: least_of_mem)
    ultimately have "stuck_waiting E t xs"
      using v vW rep as allw small wt[of "cur E"] ws na
      by (auto simp: stuck_waiting_def verdict_ok_def cand lo t' fr(1) current_is_only_active_thread_def
          waiting_state_def)
    then show ?thesis by blast
  qed
qed


lemma sleep_loop_stuck_alone:
  "stuck_alone E t xs \<Longrightarrow> \<forall>E'\<in>set Es. cur E' = cur E \<and> \<not> in_nmi E' \<Longrightarrow> sleep_loop Es t = Inl Hang"
proof (induction Es arbitrary: t)
  case (Cons E' Es)
  then have "stuck_alone E' t xs" "\<not> in_nmi E'" using stuck_cong(1)[of E' E] by auto
  from sleep_round_stuck_alone[OF this] stuck_cong(1)[of E' E] Cons show ?case by auto
qed simp

lemma sleep_loop_stuck_waiting:
  "stuck_waiting E t xs \<Longrightarrow> \<forall>E'\<in>set Es. cur E' = cur E \<and> \<not> in_nmi E' \<Longrightarrow> 0 \<le> cur E \<Longrightarrow>
   sleep_loop Es t = Inl Hang"
proof (induction Es arbitrary: t)
  case (Cons E' Es)
  then have "stuck_waiting E' t xs" "\<not> in_nmi E'" "0 \<le> cur E'" using stuck_cong(2)[of E' E] by auto
  from sleep_round_stuck_waiting[OF this] stuck_cong(2)[of E' E] Cons show ?case by auto
qed simp

lemma sleep_loop_again:
  assumes "tc_inv M s" "call_ok M E" "sleep_round E s = Inr (t, w, True)"
    and "\<forall>E'\<in>set Es. call_ok M E' \<and> cur E' = cur E"
  shows "sleep_loop (E # Es) s = Inl Hang"
proof -
  have all: "\<forall>E'\<in>set Es. cur E' = cur E \<and> \<not> in_nmi E'" using assms(4) call_okD(3) by blast
  from sleep_round_again[OF assms(1-3)] show ?thesis
    using sleep_loop_stuck_alone[OF _ all] sleep_loop_stuck_waiting[OF _ all call_okD(2)[OF assms(2)]] assms(3)
    by auto
qed

lemma sleep_loop_first_round:
  assumes "tc_inv M s" "call_ok M E" "\<forall>E'\<in>set Es. call_ok M E' \<and> cur E' = cur E"
  shows "sleep_loop (E # Es) s = sleep_loop [E] s"
proof (cases "sleep_round E s")
  case (Inr r)
  then obtain t w a where r: "sleep_round E s = Inr (t, w, a)" by (cases r) auto
  then show ?thesis using sleep_loop_again[OF assms(1,2) _ assms(3)] by (cases a) simp_all
qed simp

end
