(* ===== verification/Clock_Runs.thy ===== *)
theory Clock_Runs
  imports Clock_System
begin

text \<open>
  Concrete runs of the module: a process with two threads, set up by the handlers
  themselves, and the facts that evaluate further calls from there. The properties use them
  as witnesses, and as a run that ends in a sleeping thread that never returns.
\<close>

subsection \<open>Unfolding a handler completely\<close>

lemmas state_defs = Let_def tc_macro upd_clock_def upd_ustat_def upd_event_def upd_hw_def emit_def
  clear_entry_state_def clear_entry_state_by_id_def get_clock_ticks_def clock_is_lower_def candidate_def
  init_entry_def valid_tid_def

lemmas list_defs = listarray_insert_def listarray_remove_def listarray_getentry_def la_set_next_def
  la_set_prev_def listarray_foreach_def la_walk.simps listarray_init_def listarray_count_def

lemmas setup_defs = task_clock_entry_init_def task_clock_group_init_def init_task_clock_entries_def
  user_page_addr_def page_offset_def PAGE_ALIGN_def PAGE_SIZE_def task_clock_entry_activate_def
  task_clock_entry_activate_other_def mark_as_active_def mark_as_inactive_def

lemmas period_defs = logical_clock_update_overflow_period_def logical_clock_reset_overflow_period_def
  ic_reset_overflow_period_def ic_update_overflow_period_def

lemmas decision_defs = new_lowest_def search_for_lowest_def search_indices_def search_for_lowest_waiting_def
  determine_lowest_and_notify_or_wait_def publish_ticks_def set_current_thread_to_lowest_def
  current_is_only_active_thread_def name_or_notify_def note_lowest_def refresh_lowest_ticks_def
  wake_if_def wake_up_waiting_thread_def thread_is_waiting_def is_sleeping_def THREAD_ARR_SIZE_def

subsection \<open>A process with two threads\<close>

definition running_entry :: task_clock_entry_info where
  "running_entry = zero_entry\<lparr>initialized := True\<rparr>"

definition two_threads :: kstate where
  "two_threads = zero_state\<lparr>
     clocks := (\<lambda>_. zero_entry)(0 := running_entry, 1 := running_entry\<lparr>base_ticks := 1\<rparr>),
     lowest_tid := 0, user_status_arr := Some 128, active_threads := active_list [0, 1],
     ustat := (\<lambda>_. zero_user_status)
       (0 := zero_user_status\<lparr>us_lowest_clock := 1, us_notifying_clock := 666,
               us_notifying_sample := 666, us_hwc_idx := - 1\<rparr>,
        1 := zero_user_status\<lparr>us_hwc_idx := - 1\<rparr>)\<rparr>"

definition setup2 :: "kstate result" where
  "setup2 =
     bindE (task_clock_entry_init (thread 0) (task_clock_group_init (thread 0) zero_state) zero_event 0x10080 (\<lambda>_. Some ())) (\<lambda>s.
     bindE (task_clock_entry_activate (thread 0) s) (\<lambda>s.
     bindE (task_clock_entry_activate_other (thread 0) s 1) (\<lambda>s.
     task_clock_entry_init (thread 1) s zero_event 0x100c8 (\<lambda>_. Some ()))))"

lemma active_list_01:
  "active_list [0, 1] = \<lparr>entries = (\<lambda>_. \<lparr>nxt = 4097, prv = 4097\<rparr>)(0 := \<lparr>nxt = 1, prv = - 1\<rparr>, 1 := \<lparr>nxt = - 1, prv = 0\<rparr>),
     head = 0, tail = 1, la_count = 2, max_index = 1\<rparr>"
  by (simp add: active_list_def list_defs Let_def tc_macro)

lemma setup2_result: "setup2 = Inr two_threads"
  by (simp add: setup2_def two_threads_def running_entry_def active_list_01 concrete_defs state_defs
      list_defs setup_defs period_defs decision_defs upt_rec)

lemma thread_ok: "i = 0 \<or> i = 1 \<Longrightarrow> call_ok 2 (thread i)"
  by (auto simp: call_ok_def valid_id_def thread_def)

lemma two_threads_reachable: "tc_reach 2 two_threads"
proof -
  have ok: "call_ok 2 (thread 0)" "call_ok 2 (thread 1)" by (simp_all add: thread_ok)
  obtain a b c where
    a: "task_clock_entry_init (thread 0) (task_clock_group_init (thread 0) zero_state) zero_event 0x10080
          (\<lambda>_. Some ()) = Inr a"
    and b: "task_clock_entry_activate (thread 0) a = Inr b"
    and c: "task_clock_entry_activate_other (thread 0) b 1 = Inr c"
    and t: "task_clock_entry_init (thread 1) c zero_event 0x100c8 (\<lambda>_. Some ()) = Inr two_threads"
    using setup2_result unfolding setup2_def bindE_eq_Inr by blast
  have "tc_reach 2 (task_clock_group_init (thread 0) zero_state)"
    by (rule tc_reach.start) (simp add: thread_def)
  note tc_reach.step[OF this tc_step.entry_init[OF ok(1) a]]
  note tc_reach.step[OF this tc_step.activate[OF ok(1) b]]
  note tc_reach.step[OF this tc_step.activate_other[OF ok(1) c]]
  note tc_reach.step[OF this tc_step.entry_init[OF ok(2) t]]
  then show ?thesis .
qed

subsection \<open>A sleeping thread that is woken but has not run yet\<close>

text \<open>
  Thread 0 is ahead and sleeps; thread 1 overtakes it and wakes it; before thread 0 runs and
  reports that it woke up, thread 1 goes to sleep itself.
\<close>

definition woken_not_run :: "kstate result" where
  "woken_not_run =
     bindE (task_clock_add_ticks (thread 0) two_threads 10) (\<lambda>s.
     bindE (task_clock_entry_sleep [thread 0] s) (\<lambda>s.
     task_clock_add_ticks (thread 1) s 20))"

lemma woken_not_run_round:
  "\<exists>s t w. woken_not_run = Inr s \<and> sleep_round (thread 1) s = Inr (t, w, True)"
  by (simp add: woken_not_run_def two_threads_def running_entry_def active_list_01 concrete_defs state_defs
      list_defs decision_defs task_clock_add_ticks_def task_clock_entry_sleep_def sleep_round_def
      active_thread_count_def)

lemma woken_not_run_reachable: "woken_not_run = Inr s \<Longrightarrow> tc_reach 2 s"
proof -
  assume "woken_not_run = Inr s"
  then obtain a b where a: "task_clock_add_ticks (thread 0) two_threads 10 = Inr a"
    and b: "task_clock_entry_sleep [thread 0] a = Inr b" and s: "task_clock_add_ticks (thread 1) b 20 = Inr s"
    unfolding woken_not_run_def bindE_eq_Inr by blast
  have ok: "call_ok 2 (thread 0)" "call_ok 2 (thread 1)" "\<forall>E\<in>set [thread 0]. call_ok 2 E"
    by (simp_all add: thread_ok)
  note tc_reach.step[OF two_threads_reachable tc_step.add_ticks[OF ok(1) a]]
  note tc_reach.step[OF this tc_step.sleep[OF ok(3) b]]
  note tc_reach.step[OF this tc_step.add_ticks[OF ok(2) s]]
  then show ?thesis .
qed

subsection \<open>A waiting thread that has become the lowest\<close>

text \<open>
  Thread 1 waits; thread 0 runs ten instructions past it and stops without notifying anyone.
\<close>

definition ran_ahead :: "kstate result" where
  "ran_ahead =
     bindE (task_clock_entry_wait (thread 1) two_threads) (\<lambda>s.
     bindE (task_clock_on_enable (thread 0) s) (\<lambda>s.
     Inr (task_clock_entry_stop_no_notify (thread 0\<lparr>rdmsr := 10\<rparr>) s)))"

lemmas counting_defs = logical_clock_read_clock_and_update_def ic_read_clock_and_update_def
  read_performance_counter_def inc_clock_ticks_def inc_chunk_ticks_def

lemma pmc_delta_10: "pmc_delta 10 0 = 10"
  using pmc_delta_exact[of 10 0 10] by simp

lemma ran_ahead_result:
  "\<exists>s. ran_ahead = Inr s \<and> \<not> current_is_only_active_thread (thread 0) s \<and>
     (\<exists>t. determine_lowest_and_notify_or_wait (thread 0) s = Inr (t, 1))"
  by (simp add: ran_ahead_def two_threads_def running_entry_def active_list_01 concrete_defs state_defs
      list_defs decision_defs period_defs task_clock_entry_wait_def task_clock_on_enable_def
      task_clock_entry_stop_no_notify_def counting_defs pmc_delta_10)

lemma ran_ahead_reachable: "ran_ahead = Inr s \<Longrightarrow> tc_reach 2 s"
proof -
  assume "ran_ahead = Inr s"
  then obtain a b where a: "task_clock_entry_wait (thread 1) two_threads = Inr a"
    and b: "task_clock_on_enable (thread 0) a = Inr b"
    and s: "s = task_clock_entry_stop_no_notify (thread 0\<lparr>rdmsr := 10\<rparr>) b"
    unfolding ran_ahead_def bindE_eq_Inr by blast
  have ok: "call_ok 2 (thread 0)" "call_ok 2 (thread 1)" "call_ok 2 (thread 0\<lparr>rdmsr := 10\<rparr>)"
    by (simp_all add: call_ok_def thread_def valid_id_def)
  note tc_reach.step[OF two_threads_reachable tc_step.wait[OF ok(2) a]]
  note tc_reach.step[OF this tc_step.on_enable[OF ok(1) b]]
  note tc_reach.step[OF this tc_step.stop_no_notify[OF ok(3)]]
  then show ?thesis unfolding s .
qed

lemma ran_ahead_disable:
  "\<exists>s t. ran_ahead = Inr s \<and> \<not> current_is_only_active_thread (thread 0) s \<and>
     task_clock_on_disable (thread 0) s = Inr t \<and> lowest_tid t = 1 \<and> waiting (clocks t 1) \<and>
     \<not> sleeping (clocks t 1)"
  by (simp add: ran_ahead_def two_threads_def running_entry_def active_list_01 concrete_defs state_defs
      list_defs decision_defs period_defs task_clock_entry_wait_def task_clock_on_enable_def
      task_clock_entry_stop_no_notify_def counting_defs pmc_delta_10 task_clock_on_disable_def
      logical_clock_reset_current_ticks_def ic_reset_current_ticks_def lowest_clock_mapped_def
      sizeof_user_status_def PAGE_SIZE_def)

lemma ran_ahead_notify:
  "\<exists>s t. ran_ahead = Inr s \<and> task_clock_notify_waiting_threads (thread 0) s = Inr t \<and> lowest_tid t = 1 \<and>
     lowest_tid s = 0"
  by (simp add: ran_ahead_def two_threads_def running_entry_def active_list_01 concrete_defs state_defs
      list_defs decision_defs period_defs task_clock_entry_wait_def task_clock_on_enable_def
      task_clock_entry_stop_no_notify_def counting_defs pmc_delta_10 task_clock_notify_waiting_threads_def
      set_new_low_def lowest_clock_mapped_def sizeof_user_status_def PAGE_SIZE_def)

end
