(* ===== verification/Clock_Turns.thy ===== *)
theory Clock_Turns
  imports Clock_Runs
begin

text \<open>
  The turn: the active thread with the lowest clock holds it, and while the others go on
  calling the module it stays with that thread. This is what makes the order of the
  synchronisation operations of a program deterministic.
\<close>

subsection \<open>Holding the turn\<close>

definition has_turn :: "kstate \<Rightarrow> tid \<Rightarrow> bool" where
  "has_turn s i \<longleftrightarrow>
     (\<exists>xs. listarray_foreach (active_threads s) = Inr xs \<and> least_of s {k \<in> set xs. candidate s k} i)"

definition on_list :: "kstate \<Rightarrow> tid \<Rightarrow> bool" where
  "on_list s j \<longleftrightarrow> (\<exists>xs. listarray_foreach (active_threads s) = Inr xs \<and> j \<in> set xs)"

lemma has_turn_rep:
  "la_rep (active_threads s) xs \<Longrightarrow> has_turn s i = least_of s {k \<in> set xs. candidate s k} i"
  by (simp add: has_turn_def la.walk_rep)

lemma on_list_rep: "la_rep (active_threads s) xs \<Longrightarrow> on_list s j = (j \<in> set xs)"
  by (simp add: on_list_def la.walk_rep)

text \<open>
  \<open>told s t k\<close>: from \<open>s\<close> to \<open>t\<close> thread \<open>k\<close> has been told that it is the lowest, in one of the two
  ways there are: by its page, or by waking it.
\<close>

definition wakeups :: "kstate \<Rightarrow> tid \<Rightarrow> nat" where
  "wakeups s k = length (filter (\<lambda>x. x = WakeUpAll k) (effects s))"

definition told :: "kstate \<Rightarrow> kstate \<Rightarrow> tid \<Rightarrow> bool" where
  "told s t k \<longleftrightarrow>
     us_lowest_clock (ustat s k) = 0 \<and> us_lowest_clock (ustat t k) \<noteq> 0 \<or> wakeups s k < wakeups t k"

text \<open>
  \<open>keeps j s t\<close>: from \<open>s\<close> to \<open>t\<close> only thread \<open>j\<close>'s entry may have changed, and of what the
  choice of the lowest thread depends on only its clock: the active threads are the same, no
  base clock has changed, no thread has become inactive or changed its \<open>initialized\<close>; the other
  threads wait as before, and what they have been told stands.
  \<open>calm i j s t\<close>: besides, \<open>lowest_clock\<close> has been raised for no thread but \<open>i\<close>, and no
  sleeping thread has been woken.
\<close>

definition keeps :: "tid \<Rightarrow> kstate \<Rightarrow> kstate \<Rightarrow> bool" where
  "keeps j s t \<longleftrightarrow>
     (\<forall>k. wakeups s k \<le> wakeups t k \<and> base_ticks (clocks t k) = base_ticks (clocks s k) \<and>
          initialized (clocks t k) = initialized (clocks s k) \<and>
          (inactive (clocks t k) \<longrightarrow> inactive (clocks s k)) \<and>
          (k \<noteq> j \<longrightarrow> ticks (clocks t k) = ticks (clocks s k) \<and>
             waiting (clocks t k) = waiting (clocks s k) \<and> inactive (clocks t k) = inactive (clocks s k) \<and>
             (us_lowest_clock (ustat s k) \<noteq> 0 \<longrightarrow> us_lowest_clock (ustat t k) \<noteq> 0))) \<and>
     active_threads t = active_threads s"

definition calm :: "tid \<Rightarrow> tid \<Rightarrow> kstate \<Rightarrow> kstate \<Rightarrow> bool" where
  "calm i j s t \<longleftrightarrow> keeps j s t \<and> wakeups t = wakeups s \<and>
     (\<forall>k. k \<noteq> i \<longrightarrow> us_lowest_clock (ustat t k) \<noteq> 0 \<longrightarrow> us_lowest_clock (ustat s k) \<noteq> 0)"

lemma wakeups_sel [simp]:
  "wakeups (upd_clock i f s) = wakeups s"
  "wakeups (upd_ustat i g s) = wakeups s"
  "wakeups (emit y s) k = (if y = WakeUpAll k then Suc (wakeups s k) else wakeups s k)"
  "wakeups (s\<lparr>notification_needed := b\<rparr>) = wakeups s"
  "wakeups (s\<lparr>nmi_new_low := b\<rparr>) = wakeups s"
  "wakeups (s\<lparr>lowest_ticks := x\<rparr>) = wakeups s"
  "wakeups (s\<lparr>lowest_tid := l\<rparr>) = wakeups s"
  "wakeups (s\<lparr>start_counter := n\<rparr>) = wakeups s"
  "wakeups (s\<lparr>task_regs := r\<rparr>) = wakeups s"
  by (simp_all add: wakeups_def fun_eq_iff)

lemma wakeups_clear [simp]: "wakeups (clear_entry_state E s) = wakeups s"
  by (simp add: wakeups_def fun_eq_iff)

lemma wakeups_emit: "\<forall>k. y \<noteq> WakeUpAll k \<Longrightarrow> wakeups (emit y s) = wakeups s"
  by (simp add: fun_eq_iff)

lemma keeps_refl [simp]: "keeps j s s"
  by (simp add: keeps_def)

lemma keeps_trans: "keeps j s t \<Longrightarrow> keeps j t u \<Longrightarrow> keeps j s u"
  unfolding keeps_def by (auto intro: le_trans)

lemma calm_refl [simp]: "calm i j s s"
  by (simp add: calm_def)

lemma calm_trans: "calm i j s t \<Longrightarrow> calm i j t u \<Longrightarrow> calm i j s u"
  by (auto simp: calm_def intro: keeps_trans)

lemma keeps_list: "keeps j s t \<Longrightarrow> active_threads t = active_threads s"
  by (simp add: keeps_def)

lemma calm_keeps: "calm i j s t \<Longrightarrow> keeps j s t"
  by (simp add: calm_def)

named_theorems calm_intro

lemma calm_upd_clock:
  assumes "calm i j s t" "\<And>e. base_ticks (f e) = base_ticks e" "\<And>e. initialized (f e) = initialized e"
    "\<And>e. inactive (f e) = inactive e"
  shows "calm i j s (upd_clock j f t)"
  using assms by (auto simp: calm_def keeps_def)

lemma calm_upd_ustat:
  assumes "calm i j s t" "\<And>u. us_lowest_clock (f u) = us_lowest_clock u"
  shows "calm i j s (upd_ustat k f t)"
  using assms by (auto simp: calm_def keeps_def)

lemma calm_flags [simp]:
  "calm i j s (t\<lparr>notification_needed := b\<rparr>) = calm i j s t"
  "calm i j s (t\<lparr>nmi_new_low := b\<rparr>) = calm i j s t"
  "calm i j s (t\<lparr>lowest_ticks := x\<rparr>) = calm i j s t"
  "calm i j s (t\<lparr>lowest_tid := l\<rparr>) = calm i j s t"
  "calm i j s (t\<lparr>start_counter := n\<rparr>) = calm i j s t"
  by (simp_all add: calm_def keeps_def)

lemma calm_emit [simp]: "\<forall>k. y \<noteq> WakeUpAll k \<Longrightarrow> calm i j s (emit y t) = calm i j s t"
  by (simp add: calm_def keeps_def wakeups_emit)

lemma calm_upd_event [calm_intro]:
  "calm i j s t \<Longrightarrow> calm i j s (upd_event j f t)"
  "calm i j s t \<Longrightarrow> calm i j s (upd_hw j g t)"
  by (simp_all add: upd_event_def upd_hw_def calm_upd_clock)

lemma calm_if [calm_intro]:
  "(b \<Longrightarrow> calm i j s t) \<Longrightarrow> (\<not> b \<Longrightarrow> calm i j s u) \<Longrightarrow> calm i j s (if b then t else u)"
  by simp

lemma calm_publish [calm_intro]: "calm i j s t \<Longrightarrow> calm i j s (publish_ticks E t)"
  by (simp add: publish_ticks_def calm_upd_ustat)

lemma calm_clear [calm_intro]: "calm i (cur E) s t \<Longrightarrow> calm i (cur E) s (clear_entry_state E t)"
  by (auto simp: calm_def keeps_def wakeups_def)

text \<open>The counters of the running thread.\<close>

lemma calm_counter [calm_intro]:
  assumes "calm i (cur E) s t"
  shows "calm i (cur E) s (tick_counter_turn_off E t)"
    "calm i (cur E) s (tick_counter_turn_on E t)"
    "calm i (cur E) s (reset_chunk_ticks t (cur E))"
    "calm i (cur E) s (inc_clock_ticks_no_chunk_add t (cur E) v)"
    "calm i (cur E) s (begin_bounded_memory_fence E t)"
    "calm i (cur E) s (end_bounded_memory_fence_early E t)"
    "calm i (cur E) s (fst (on_single_step E t flags))"
  using assms
  by (auto simp: calm_def keeps_def fun_eq_iff tc_macro begin_bounded_memory_fence_def end_bounded_memory_fence_early_def
      on_single_step_def Let_def)

lemma calm_inc_clock_ticks [calm_intro]:
  "calm i (cur E) s t \<Longrightarrow> calm i (cur E) s (inc_clock_ticks E t (cur E) v)"
  by (simp add: inc_clock_ticks_def inc_chunk_ticks_def Let_def calm_upd_clock calm_counter)

lemma calm_program_counter [calm_intro]: "calm i j s t \<Longrightarrow> calm i j s (program_counter j v t)"
  by (simp add: program_counter_def calm_upd_event)

lemma calm_read_counter:
  "calm i j s t \<Longrightarrow> read_performance_counter E t j = (t', a, b) \<Longrightarrow> calm i j s t'"
  by (auto simp: read_performance_counter_def split: prod.splits intro: calm_upd_event)

lemmas logical_clock_ops =
  logical_clock_update_clock_ticks_def logical_clock_read_clock_and_update_def
  logical_clock_reset_current_ticks_def logical_clock_set_perf_counter_max_def
  logical_clock_set_perf_counter_def logical_clock_reset_overflow_period_def
  ic_update_clock_ticks_def ic_read_clock_and_update_def ic_reset_current_ticks_def
  ic_set_perf_counter_max_def ic_set_perf_counter_def ic_reset_overflow_period_def
  logical_clock_no_ticks_def Let_def

lemma calm_logical_clock [calm_intro]:
  assumes "calm i (cur E) s t"
  shows "calm i (cur E) s (logical_clock_update_clock_ticks E t (cur E))"
    "calm i (cur E) s (logical_clock_read_clock_and_update E t (cur E))"
    "calm i (cur E) s (logical_clock_reset_current_ticks E t (cur E))"
    "calm i (cur E) s (logical_clock_set_perf_counter_max E t (cur E))"
    "calm i (cur E) s (logical_clock_set_perf_counter E t (cur E))"
    "calm i (cur E) s (logical_clock_reset_overflow_period E t (cur E))"
  using assms
  by (auto simp: logical_clock_ops split: prod.split
      intro!: calm_upd_event calm_inc_clock_ticks calm_upd_clock calm_upd_ustat calm_counter
        calm_program_counter intro: calm_read_counter)

lemma calm_update_overflow:
  "calm i j s t \<Longrightarrow> logical_clock_update_overflow_period E t j = Inr t' \<Longrightarrow> calm i j s t'"
  by (auto simp: logical_clock_update_overflow_period_def logical_clock_no_ticks_def
      ic_update_overflow_period_def calm_upd_event split: if_splits)

subsection \<open>The turn survives a change of another thread's clock\<close>

lemma keeps_candidate:
  assumes "keeps j s t" "j = k \<Longrightarrow> \<not> inactive (clocks s k)"
  shows "candidate t k = candidate s k"
  using assms by (cases "k = j") (auto simp: keeps_def candidate_def)

lemma keeps_clock: "keeps j s t \<Longrightarrow> k \<noteq> j \<Longrightarrow> get_clock_ticks t k = get_clock_ticks s k"
  by (simp add: keeps_def get_clock_ticks_def)

lemma keeps_has_turn:
  assumes kp: "keeps j s t" and rep: "la_rep (active_threads s) xs"
    and act: "j \<in> set xs \<Longrightarrow> \<not> inactive (clocks s j)" and turn: "has_turn s i"
    and up: "if i = j then get_clock_ticks t j = get_clock_ticks s j
             else get_clock_ticks s j \<le> get_clock_ticks t j"
  shows "has_turn t i"
proof -
  have rep': "la_rep (active_threads t) xs" using rep keeps_list[OF kp] by simp
  have cand: "k \<in> set xs \<Longrightarrow> candidate t k = candidate s k" for k
    using keeps_candidate[OF kp, of k] act by auto
  have own: "get_clock_ticks t i = get_clock_ticks s i"
    using up keeps_clock[OF kp, of i] by (auto split: if_splits)
  have ge: "get_clock_ticks s k \<le> get_clock_ticks t k" for k
    using up keeps_clock[OF kp, of k] by (cases "k = j") (auto split: if_splits)
  have "clock_is_lower t i k" if "clock_is_lower s i k" for k
    using that ge[of k]
    by (cases "get_clock_ticks s k = get_clock_ticks t k") (auto simp: clock_is_lower_def own)
  with turn cand show ?thesis
    by (auto simp: has_turn_rep[OF rep] has_turn_rep[OF rep'] least_of_def)
qed

lemma has_turn_unique: "has_turn s i \<Longrightarrow> has_turn s k \<Longrightarrow> i = k"
  by (auto simp: has_turn_def intro: least_of_unique)

lemma has_turn_on_list: "has_turn s i \<Longrightarrow> on_list s i"
  by (auto simp: has_turn_def on_list_def least_of_def)

subsection \<open>A decision and the wake-up that follows\<close>

lemma determine_calm:
  assumes "determine_lowest_and_notify_or_wait E s = Inr (t, w)"
  shows "calm (cur E) (cur E) s t" "get_clock_ticks t k = get_clock_ticks s k"
proof -
  note fr = determine_frame[OF assms]
  have "inactive (clocks t k) \<Longrightarrow> inactive (clocks s k)" for k
    using assms
    by (auto simp: determine_lowest_and_notify_or_wait_def name_or_notify_def Let_def
        split: if_splits prod.splits)
  moreover have "wakeups t = wakeups s" by (simp add: wakeups_def fr(3) fun_eq_iff)
  ultimately show "calm (cur E) (cur E) s t" using fr(1,4-8) by (simp add: calm_def keeps_def)
  show "get_clock_ticks t k = get_clock_ticks s k" by (simp add: get_clock_ticks_def fr(6,7))
qed

lemma wake_if_tells:
  assumes "wake_if (s, w) = Inr t"
  shows "wakeups s k \<le> wakeups t k"
    "us_lowest_clock (ustat s k) \<noteq> 0 \<Longrightarrow> us_lowest_clock (ustat t k) \<noteq> 0"
    "0 \<le> w \<Longrightarrow> lowest_tid s = w \<Longrightarrow> us_lowest_clock (ustat t w) \<noteq> 0 \<or> wakeups s w < wakeups t w"
  using assms
  by (auto simp: wake_if_def wake_up_waiting_thread_def upd_event_def split: if_splits option.splits)

lemma wake_if_keeps:
  assumes "wake_if (s, w) = Inr t"
  shows "keeps j s t" "get_clock_ticks t k = get_clock_ticks s k"
    "told s t k \<Longrightarrow> w \<noteq> -1 \<and> (k = lowest_tid s \<or> k = w)"
proof -
  show "keeps j s t" "get_clock_ticks t k = get_clock_ticks s k"
    using same_sched_wake_if[OF assms] wake_if_frame[OF assms] wake_if_tells(1,2)[OF assms]
    by (simp_all add: keeps_def same_sched_def get_clock_ticks_def)
  have "wakeups t k = wakeups s k" if "k \<noteq> w"
    using assms that
    by (auto simp: wake_if_def wake_up_waiting_thread_def upd_event_def split: if_splits option.splits)
  moreover have "w \<noteq> -1" if "told s t k"
    using assms that by (auto simp: wake_if_nobody told_def)
  ultimately show "told s t k \<Longrightarrow> w \<noteq> -1 \<and> (k = lowest_tid s \<or> k = w)"
    using wake_if_ustat_other[OF assms, of k] unfolding told_def by (metis less_irrefl)
qed

text \<open>
  Who a decision names or wakes has the turn. The thread that decides is on the list, or, when
  it halts, inactive; being alone it must have the turn.
\<close>

lemma decision_gives_turn:
  assumes rep: "la_rep (active_threads s) xs" and ok: "call_ok M E"
    and al: "current_is_only_active_thread E s \<Longrightarrow> has_turn s (cur E)"
    and det: "determine_lowest_and_notify_or_wait E s = Inr (t, w)"
  shows "us_lowest_clock (ustat t (cur E)) \<noteq> 0 \<Longrightarrow> has_turn s (cur E)"
    "w \<noteq> -1 \<Longrightarrow> w \<noteq> cur E \<and> lowest_tid t = w \<and> has_turn s w"
proof -
  obtain v where v: "verdict_ok E xs s t w v"
    and st: "if is_named v then named_state E t else waiting_state E s t"
    using determine_verdict[OF rep call_okD(3,2)[OF ok] det] by blast
  show "us_lowest_clock (ustat t (cur E)) \<noteq> 0 \<Longrightarrow> has_turn s (cur E)"
    using v st al by (cases v) (auto simp: verdict_ok_def waiting_state_def has_turn_rep[OF rep])
  show "w \<noteq> -1 \<Longrightarrow> w \<noteq> cur E \<and> lowest_tid t = w \<and> has_turn s w"
    using v by (cases v) (auto simp: verdict_ok_def has_turn_rep[OF rep])
qed

lemma not_alone_beside:
  assumes "la_rep (active_threads s) xs" "i \<in> set xs" "i \<noteq> cur E"
    and "cur E \<in> set xs \<or> inactive (clocks s (cur E))"
  shows "\<not> current_is_only_active_thread E s"
proof
  assume "current_is_only_active_thread E s"
  with assms(1,4) have "length xs = 1" "cur E \<in> set xs"
    by (auto simp: current_is_only_active_thread_def la.size_rep)
  with assms(2,3) show False by (cases xs) auto
qed

text \<open>
  \<open>owed s k\<close>: a decision that finds thread \<open>k\<close> waiting and lowest will tell it. \<open>owing j s t\<close>:
  what is owed in \<open>s\<close> to the threads that wait beside \<open>j\<close> is owed in \<open>t\<close>.
\<close>

definition owed :: "kstate \<Rightarrow> tid \<Rightarrow> bool" where
  "owed s k \<longleftrightarrow> notification_needed s \<or> lowest_tid s \<noteq> k"

definition owing :: "tid \<Rightarrow> kstate \<Rightarrow> kstate \<Rightarrow> bool" where
  "owing j s t \<longleftrightarrow> (\<forall>k. on_list s k \<longrightarrow> on_list s j \<longrightarrow> k \<noteq> j \<longrightarrow> waiting (clocks s k) \<longrightarrow> owed s k \<longrightarrow> owed t k)"

lemma owing_refl [simp]: "owing j s s"
  by (simp add: owing_def)

lemma owing_same_sched: "same_sched s t \<Longrightarrow> owing j s t"
  by (simp add: owing_def owed_def same_sched_def)

lemma owing_needed: "owing j s (t\<lparr>notification_needed := True\<rparr>)"
  by (simp add: owing_def owed_def)

lemma owing_trans: "keeps j s t \<Longrightarrow> owing j s t \<Longrightarrow> owing j t u \<Longrightarrow> owing j s u"
  by (auto simp: owing_def on_list_def keeps_def)

lemma determine_owed:
  assumes rep: "la_rep (active_threads s) xs" and ok: "call_ok M E"
    and det: "determine_lowest_and_notify_or_wait E s = Inr (t, w)"
    and at: "cur E \<in> set xs \<or> inactive (clocks s (cur E))"
    and k: "k \<in> set xs" "k \<noteq> cur E" "waiting (clocks s k)" "owed s k"
  shows "owed t k \<or> w = k"
proof -
  obtain v where v: "verdict_ok E xs s t w v"
    using determine_verdict[OF rep call_okD(3,2)[OF ok] det] by blast
  have "\<not> current_is_only_active_thread E s" using not_alone_beside[OF rep k(1,2) at] .
  with v k(2-4) show ?thesis
    using la_rep_nonneg[OF rep] k(1) by (cases v) (auto simp: verdict_ok_def owed_def)
qed

lemma determine_owing:
  assumes "la_rep (active_threads s) xs" "call_ok M E"
    "determine_lowest_and_notify_or_wait E s = Inr (t, w)" "w < 0"
  shows "owing (cur E) s t"
  unfolding owing_def
proof (intro allI impI)
  fix k assume k: "on_list s k" "on_list s (cur E)" "k \<noteq> cur E" "waiting (clocks s k)" "owed s k"
  with determine_owed[OF assms(1-3), of k] la_rep_nonneg[OF assms(1)] assms(4) show "owed t k"
    by (auto simp: on_list_rep[OF assms(1)])
qed

text \<open>
  \<open>decides E s t\<close>: the common course of the handlers that decide. A change of the running
  thread's entry, the decision, a change of the thread's flags, and the wake-up.
\<close>

definition settles :: "tid \<Rightarrow> kstate \<Rightarrow> kstate \<Rightarrow> bool" where
  "settles j s t \<longleftrightarrow> keeps j s t \<and> lowest_tid t = lowest_tid s \<and> wakeups t = wakeups s \<and>
     (notification_needed s \<longrightarrow> notification_needed t) \<and>
     (\<forall>k. get_clock_ticks t k = get_clock_ticks s k \<and>
          us_lowest_clock (ustat t k) = us_lowest_clock (ustat s k))"

definition decides :: "env \<Rightarrow> kstate \<Rightarrow> kstate \<Rightarrow> bool" where
  "decides E s t \<longleftrightarrow>
     (\<exists>u v v' w. calm (cur E) (cur E) s u \<and> owing (cur E) s u \<and> determine_lowest_and_notify_or_wait E u = Inr (v, w) \<and>
        settles (cur E) v v' \<and> wake_if (v', w) = Inr t)"

lemma decidesI:
  assumes "calm (cur E) (cur E) s u" "owing (cur E) s u" "determine_lowest_and_notify_or_wait E u = Inr (v, w)"
    "settles (cur E) v v'" "wake_if (v', w) = Inr t"
  shows "decides E s t"
  using assms by (auto simp: decides_def)

lemma settles_refl [simp]: "settles j s s"
  by (simp add: settles_def)

lemma settles_flags [simp]:
  "settles j s t \<Longrightarrow> settles j s (t\<lparr>notification_needed := True\<rparr>)"
  "settles j s (t\<lparr>nmi_new_low := b\<rparr>) = settles j s t"
  "settles j s (t\<lparr>start_counter := n\<rparr>) = settles j s t"
  by (auto simp: settles_def keeps_def get_clock_ticks_def)

lemma settles_upd:
  assumes "settles j s t" "\<And>e. base_ticks (f e) = base_ticks e" "\<And>e. ticks (f e) = ticks e"
    "\<And>e. initialized (f e) = initialized e" "\<And>e. inactive (f e) = inactive e"
  shows "settles j s (upd_clock j f t)"
  using assms by (auto simp: settles_def keeps_def get_clock_ticks_def)

lemma settles_clear: "settles (cur E) s t \<Longrightarrow> settles (cur E) s (clear_entry_state E t)"
  by (auto simp: settles_def keeps_def get_clock_ticks_def wakeups_def)

lemma decides_calm_before:
  assumes "calm (cur E) (cur E) s s'" "owing (cur E) s s'" "decides E s' t"
  shows "decides E s t"
proof -
  from assms(3) obtain u v v' w where "calm (cur E) (cur E) s' u" "owing (cur E) s' u"
    "determine_lowest_and_notify_or_wait E u = Inr (v, w)" "settles (cur E) v v'" "wake_if (v', w) = Inr t"
    by (auto simp: decides_def)
  note p = this
  show ?thesis
    by (rule decidesI[OF calm_trans[OF assms(1) p(1)] owing_trans[OF calm_keeps[OF assms(1)] assms(2) p(2)] p(3-5)])
qed

lemma decision_effect:
  assumes u: "calm (cur E) (cur E) s u" and det: "determine_lowest_and_notify_or_wait E u = Inr (v, w)"
    and v': "settles (cur E) v v'" and w: "wake_if (v', w) = Inr t"
    and rep: "la_rep (active_threads s) xs" and ok: "call_ok M E"
    and act: "cur E \<in> set xs \<Longrightarrow> \<not> inactive (clocks s (cur E))"
    and al: "current_is_only_active_thread E u \<Longrightarrow> has_turn u (cur E)"
  shows "keeps (cur E) s t"
    "us_lowest_clock (ustat t (cur E)) \<noteq> 0 \<Longrightarrow> has_turn t (cur E)"
    "told s t k \<Longrightarrow> has_turn t k"
proof -
  let ?j = "cur E"
  note d = determine_calm[OF det] and wk = wake_if_keeps[OF w]
  have ut: "keeps ?j u t"
    using calm_keeps[OF d(1)] v' wk(1)[of ?j] by (auto simp: settles_def intro: keeps_trans)
  with calm_keeps[OF u] show "keeps ?j s t" by (rule keeps_trans)
  have tk: "get_clock_ticks t k = get_clock_ticks u k" for k
    using d(2)[of k] v' wk(2)[of k] by (simp add: settles_def)
  have rep': "la_rep (active_threads u) xs" using rep keeps_list[OF calm_keeps[OF u]] by simp
  have act': "?j \<in> set xs \<Longrightarrow> \<not> inactive (clocks u ?j)"
    using act calm_keeps[OF u] by (auto simp: keeps_def)
  have turn: "has_turn u k \<Longrightarrow> has_turn t k" for k
    using keeps_has_turn[OF ut rep' act'] tk by simp
  note g = decision_gives_turn[OF rep' ok al det]
  have raise: "has_turn t k" if "told v t k" for k
    using wk(3)[of k] that v' g(2) turn by (auto simp: settles_def told_def)
  show own: "us_lowest_clock (ustat t ?j) \<noteq> 0 \<Longrightarrow> has_turn t ?j"
    using raise[of ?j] g(1) turn by (auto simp: told_def)
  have "told s t k \<Longrightarrow> told v t k \<or> k = ?j \<and> us_lowest_clock (ustat t ?j) \<noteq> 0"
    using u d(1) by (cases "k = ?j") (auto simp: told_def calm_def)
  with raise[of k] own show "told s t k \<Longrightarrow> has_turn t k" by blast
qed

lemma decides_effect:
  assumes dc: "decides E s t" and rep: "la_rep (active_threads s) xs" and ok: "call_ok M E"
    and act: "cur E \<in> set xs \<Longrightarrow> \<not> inactive (clocks s (cur E))"
    and al: "\<And>u. keeps (cur E) s u \<Longrightarrow> current_is_only_active_thread E u \<Longrightarrow> has_turn u (cur E)"
  shows "keeps (cur E) s t"
    "us_lowest_clock (ustat t (cur E)) \<noteq> 0 \<Longrightarrow> has_turn t (cur E)"
    "told s t k \<Longrightarrow> has_turn t k"
proof -
  from dc obtain u v v' w where u: "calm (cur E) (cur E) s u"
    and d: "determine_lowest_and_notify_or_wait E u = Inr (v, w)" "settles (cur E) v v'"
    "wake_if (v', w) = Inr t"
    by (auto simp: decides_def)
  note e = decision_effect[OF u d rep ok act al[OF calm_keeps[OF u]]]
  show "keeps (cur E) s t" by (rule e(1))
  show "us_lowest_clock (ustat t (cur E)) \<noteq> 0 \<Longrightarrow> has_turn t (cur E)" by (rule e(2))
  show "told s t k \<Longrightarrow> has_turn t k" by (rule e(3))
qed

subsection \<open>The thread with the turn is named\<close>

lemma search_finds_waiting_least:
  assumes "la_rep (active_threads s) xs" "\<not> in_nmi E" "search_for_lowest_waiting E s = Inr l"
    and "least_of s {k \<in> set xs. candidate s k} i" "waiting (clocks s i)"
  shows "l = i"
proof -
  from assms(3) obtain arr low where arr: "mark_waiting s (thread_arr E) xs = Inr arr"
    and low: "search_for_lowest E s = Inr low"
    and l: "(if low \<ge> 0 then if low < THREAD_ARR_SIZE then Inr (if arr low = 1 then low else -1)
             else Inl OutOfBounds else Inr (-1)) = (Inr l :: tid result)"
    unfolding search_for_lowest_waiting_def la.walk_rep[OF assms(1)] bindE_eq_Inr by auto
  have "\<not> (\<forall>k\<in>set xs. \<not> candidate s k)" using assms(4) by (auto simp: least_of_def)
  with search_for_lowest_Inr[OF assms(1,2) low] have "0 \<le> low" "least_of s {k \<in> set xs. candidate s k} low"
    by blast+
  moreover from this(2) assms(4) have "low = i" by (rule least_of_unique)
  moreover have "arr i = 1"
    using assms(4,5) by (simp add: mark_waiting_Inr[OF arr] least_of_def)
  ultimately show ?thesis using l by (simp split: if_splits)
qed

lemma decision_finds_turn:
  assumes rep: "la_rep (active_threads s) xs" and ok: "call_ok M E" and turn: "has_turn s i"
    and wt: "i = cur E \<or> waiting (clocks s i)" and na: "\<not> current_is_only_active_thread E s"
    and det: "determine_lowest_and_notify_or_wait E s = Inr (t, w)"
  shows "\<exists>s1 t0. name_or_notify E i (note_lowest i s1) = (t0, w) \<and> t = refresh_lowest_ticks t0"
proof -
  define s1 where "s1 = upd_clock (cur E) (\<lambda>e. e\<lparr>waiting := True\<rparr>) (publish_ticks E s)"
  have eqs: "candidate s1 = candidate s" "least_of s1 = least_of s" "la_rep (active_threads s1) xs"
    "waiting (clocks s1 i)"
    using least_of_cong[of s1 s] rep wt by (auto simp: s1_def)
  from det obtain l where srch: "search_for_lowest_waiting E s1 = Inr l"
    and e: "(case name_or_notify E l (note_lowest l s1) of
          (s, w) \<Rightarrow> Inr (refresh_lowest_ticks s, w)) = (Inr (t, w) :: (kstate \<times> tid) result)"
    unfolding determine_not_alone[OF na] Let_def s1_def[symmetric] bindE_eq_Inr by blast
  have "l = i"
    using search_finds_waiting_least[OF eqs(3) call_okD(3)[OF ok] srch] turn eqs
    by (simp add: has_turn_rep[OF rep])
  with e show ?thesis by (cases "name_or_notify E i (note_lowest i s1)") auto
qed

lemma decision_with_turn:
  assumes "la_rep (active_threads s) xs" "call_ok M E" "has_turn s (cur E)"
    "\<not> current_is_only_active_thread E s" "determine_lowest_and_notify_or_wait E s = Inr (t, w)"
  shows "us_lowest_clock (ustat t (cur E)) = 1"
proof -
  from decision_finds_turn[OF assms(1-3) _ assms(4,5)] obtain s1 t0
    where "name_or_notify E (cur E) (note_lowest (cur E) s1) = (t0, w)" "t = refresh_lowest_ticks t0"
    by auto
  then show ?thesis using call_okD(2)[OF assms(2)] by (auto simp: name_or_notify_def)
qed

lemma decision_lowest:
  assumes "la_rep (active_threads s) xs" "call_ok M E" "has_turn s i" "waiting (clocks s i)"
    "\<not> current_is_only_active_thread E s" "determine_lowest_and_notify_or_wait E s = Inr (t, w)"
  shows "lowest_tid t = i"
proof -
  from decision_finds_turn[OF assms(1-3) _ assms(5,6)] assms(4) obtain s1 t0
    where "name_or_notify E i (note_lowest i s1) = (t0, w)" "t = refresh_lowest_ticks t0" by auto
  then show ?thesis by (auto simp: name_or_notify_def Let_def split: if_splits)
qed

text \<open>A decision tells the thread with the turn, unless it has been told already.\<close>

lemma decision_tells:
  assumes rep: "la_rep (active_threads u) xs" and ok: "call_ok M E"
    and at: "cur E \<in> set xs \<or> inactive (clocks u (cur E))" and turn: "has_turn u h"
    and det: "determine_lowest_and_notify_or_wait E u = Inr (v, w)"
    and v': "settles (cur E) v v'" and w: "wake_if (v', w) = Inr t"
  shows "h = cur E \<Longrightarrow> us_lowest_clock (ustat t h) \<noteq> 0"
    "h \<noteq> cur E \<Longrightarrow> waiting (clocks u h) \<Longrightarrow> owed u h \<Longrightarrow>
       us_lowest_clock (ustat t h) \<noteq> 0 \<or> wakeups u h < wakeups t h"
proof -
  obtain vd where vd: "verdict_ok E xs u v w vd"
    and st: "if is_named vd then named_state E v else waiting_state E u v"
    using determine_verdict[OF rep call_okD(3,2)[OF ok] det] by blast
  have hx: "h \<in> set xs" "0 \<le> h"
    using turn la_rep_nonneg[OF rep] by (auto simp: has_turn_rep[OF rep] least_of_def)
  show "us_lowest_clock (ustat t h) \<noteq> 0" if h: "h = cur E"
  proof -
    have "us_lowest_clock (ustat v h) \<noteq> 0"
    proof (cases "current_is_only_active_thread E u")
      case True
      with vd have "vd = Alone" by (cases vd) (auto simp: verdict_ok_def)
      with st h show ?thesis by (simp add: named_state_def)
    next
      case False
      with decision_with_turn[OF rep ok _ False det] turn h show ?thesis by simp
    qed
    then show ?thesis using v' wake_if_tells(2)[OF w, of h] by (simp add: settles_def)
  qed
  show "us_lowest_clock (ustat t h) \<noteq> 0 \<or> wakeups u h < wakeups t h"
    if h: "h \<noteq> cur E" "waiting (clocks u h)" "owed u h"
  proof -
    have na: "\<not> current_is_only_active_thread E u" using not_alone_beside[OF rep hx(1) h(1) at] .
    from decision_lowest[OF rep ok turn h(2) na det] have low: "lowest_tid v = h" .
    have "w = h"
      using vd low h na hx(2) by (cases vd) (auto simp: verdict_ok_def owed_def)
    moreover have "wakeups v' h = wakeups u h" "lowest_tid v' = h"
      using determine_calm(1)[OF det] v' low by (simp_all add: calm_def settles_def)
    ultimately show ?thesis using wake_if_tells(3)[OF w] hx(2) by auto
  qed
qed

subsection \<open>The properties\<close>

text \<open>
  C5: a decision taken in a reachable state sets \<open>lowest_clock\<close> in the running thread's user
  page exactly if the thread is the only active one or has the turn, that is, the lowest
  clock of all active initialised threads; the thread is then no longer marked as waiting
  and nobody is to be woken, and otherwise it is marked as waiting and its page says no.
\<close>

theorem named_iff_turn:
  assumes "tc_reach M s" "M \<le> LISTARRAY_MAX_SIZE" "call_ok M E"
    and "determine_lowest_and_notify_or_wait E s = Inr (t, w)"
  shows "if current_is_only_active_thread E s \<or> has_turn s (cur E)
     then us_lowest_clock (ustat t (cur E)) = 1 \<and> \<not> waiting (clocks t (cur E)) \<and> w = -1
     else us_lowest_clock (ustat t (cur E)) = 0 \<and> waiting (clocks t (cur E))"
proof -
  from reach_activeE[OF assms(1,2)] obtain xs where rep: "la_rep (active_threads s) xs" .
  from determine_verdict[OF rep call_okD(3,2)[OF assms(3)] assms(4)] obtain v where
    v: "verdict_ok E xs s t w v" "if is_named v then named_state E t else waiting_state E s t" by blast
  have "is_named v \<longleftrightarrow> current_is_only_active_thread E s \<or> has_turn s (cur E)"
    using v decision_with_turn[OF rep assms(3) _ _ assms(4)]
    by (cases v) (auto simp: verdict_ok_def waiting_state_def has_turn_rep[OF rep])
  with v show ?thesis by (cases v) (auto simp: verdict_ok_def named_state_def waiting_state_def)
qed

theorem named_iff_turn_witness:
  "\<exists>t w. determine_lowest_and_notify_or_wait (thread 1) two_threads = Inr (t, w) \<and>
     us_lowest_clock (ustat t 1) = 0 \<and> waiting (clocks t 1)"
proof -
  obtain t w where d: "determine_lowest_and_notify_or_wait (thread 1) two_threads = Inr (t, w)"
    "us_lowest_clock (ustat t 1) = 0"
    by (simp add: two_threads_def running_entry_def active_list_01 concrete_defs state_defs list_defs decision_defs)
  have c: "cur (thread 1) = 1" by (simp add: thread_def)
  from named_iff_turn[OF two_threads_reachable _ _ d(1), unfolded c] d show ?thesis
    by (auto simp: thread_ok LISTARRAY_MAX_SIZE_def split: if_splits)
qed

end
