(* ===== verification/Clock_Calls.thy ===== *)
theory Clock_Calls
  imports Clock_Turns
begin

text \<open>
  What the calls of the running threads do to the turn: the calls fall into five groups, and
  none of them takes the turn from a thread that did not make the call, nor sets a flag that
  is not its owner's due.
\<close>

subsection \<open>Calls by the other threads\<close>

text \<open>
  \<open>runs M j s t\<close>: thread \<open>j\<close> makes a call of the module from \<open>s\<close> to \<open>t\<close> that neither sets a
  thread up nor activates one, or its counter overflows, or the hardware and user space move
  on, which raises nobody's \<open>lowest_clock\<close>.
\<close>

inductive runs :: "int \<Rightarrow> tid \<Rightarrow> kstate \<Rightarrow> kstate \<Rightarrow> bool" for M j where
  on_disable: "call_ok M E \<Longrightarrow> cur E = j \<Longrightarrow> task_clock_on_disable E s = Inr t \<Longrightarrow> runs M j s t"
| on_enable: "call_ok M E \<Longrightarrow> cur E = j \<Longrightarrow> task_clock_on_enable E s = Inr t \<Longrightarrow> runs M j s t"
| add_ticks: "call_ok M E \<Longrightarrow> cur E = j \<Longrightarrow> task_clock_add_ticks E s n = Inr t \<Longrightarrow> runs M j s t"
| wait: "call_ok M E \<Longrightarrow> cur E = j \<Longrightarrow> task_clock_entry_wait E s = Inr t \<Longrightarrow> runs M j s t"
| sleep: "\<forall>E\<in>set Es. call_ok M E \<and> cur E = j \<Longrightarrow> task_clock_entry_sleep Es s = Inr t \<Longrightarrow> runs M j s t"
| woke_up: "call_ok M E \<Longrightarrow> cur E = j \<Longrightarrow> runs M j s (task_clock_entry_woke_up E s)"
| reset: "call_ok M E \<Longrightarrow> cur E = j \<Longrightarrow> runs M j s (task_clock_entry_reset E s)"
| stop: "call_ok M E \<Longrightarrow> cur E = j \<Longrightarrow> task_clock_entry_stop E s = Inr t \<Longrightarrow> runs M j s t"
| stop_no_notify: "call_ok M E \<Longrightarrow> cur E = j \<Longrightarrow> runs M j s (task_clock_entry_stop_no_notify E s)"
| start: "call_ok M E \<Longrightarrow> cur E = j \<Longrightarrow> task_clock_entry_start E s = Inr t \<Longrightarrow> runs M j s t"
| start_no_notify: "call_ok M E \<Longrightarrow> cur E = j \<Longrightarrow> runs M j s (task_clock_entry_start_no_notify E s)"
| halt: "call_ok M E \<Longrightarrow> cur E = j \<Longrightarrow> task_clock_entry_halt E s = Inr t \<Longrightarrow> runs M j s t"
| notify: "call_ok M E \<Longrightarrow> cur E = j \<Longrightarrow> task_clock_notify_waiting_threads E s = Inr t \<Longrightarrow> runs M j s t"
| overflow: "cur E = j \<Longrightarrow> task_clock_overflow_handler E s flags = Inr (t, flags') \<Longrightarrow> runs M j s t"
| update_period: "cur E = j \<Longrightarrow> task_clock_entry_overflow_update_period E s = Inr t \<Longrightarrow> runs M j s t"
| single_step: "cur E = j \<Longrightarrow> task_clock_entry_is_singlestep E s flags = (t, flags', r) \<Longrightarrow> runs M j s t"
| machine: "same_sched s t \<Longrightarrow> \<forall>k. ticks (clocks t k) = ticks (clocks s k) \<and>
    us_lowest_clock (ustat t k) = us_lowest_clock (ustat s k) \<Longrightarrow> effects t = effects s \<Longrightarrow> runs M j s t"

lemma runs_tc_step: "runs M j s t \<Longrightarrow> tc_step M s t"
  by (induction rule: runs.induct) (auto intro: tc_step.intros)

text \<open>
  A call that another active thread makes for itself and that does not lower its own 64-bit
  clock. Left out are activating another thread, negative ticks (\<open>task_clock_add_ticks\<close> takes a
  signed number) and a wrap-around: they can take the turn (\<open>negative_ticks_take_turn\<close>).
\<close>

definition others_step :: "int \<Rightarrow> tid \<Rightarrow> kstate \<Rightarrow> kstate \<Rightarrow> bool" where
  "others_step M i s t \<longleftrightarrow>
     (\<exists>j. j \<noteq> i \<and> on_list s j \<and> runs M j s t \<and> get_clock_ticks s j \<le> get_clock_ticks t j)"

subsection \<open>What each call amounts to\<close>

text \<open>
  \<open>looks E s t\<close>: a decision after which the thread looks at its page or sleeps, so it stays
  marked as waiting unless it was named.
\<close>

definition looks :: "env \<Rightarrow> kstate \<Rightarrow> kstate \<Rightarrow> bool" where
  "looks E s t \<longleftrightarrow>
     (\<exists>u v v' w. calm (cur E) (cur E) s u \<and> owing (cur E) s u \<and>
        determine_lowest_and_notify_or_wait E u = Inr (v, w) \<and> settles (cur E) v v' \<and>
        waiting (clocks v' (cur E)) = waiting (clocks v (cur E)) \<and> wake_if (v', w) = Inr t)"

lemma looks_decides: "looks E s t \<Longrightarrow> decides E s t"
  by (auto simp: looks_def decides_def)

lemma decides_keeps:
  assumes "decides E s t"
  shows "keeps (cur E) s t"
  using assms
  by (auto simp: decides_def settles_def intro: keeps_trans
      dest!: calm_keeps determine_calm(1) wake_if_keeps(1)[where j = "cur E"])

lemma looks_bind:
  assumes "bindE (determine_lowest_and_notify_or_wait E u) wake_if = Inr t" "calm (cur E) (cur E) s u"
    and "owing (cur E) s u"
  shows "looks E s t"
proof -
  from assms(1) obtain v w where "determine_lowest_and_notify_or_wait E u = Inr (v, w)"
    "wake_if (v, w) = Inr t"
    by (cases "determine_lowest_and_notify_or_wait E u") auto
  with assms(2,3) show ?thesis unfolding looks_def by (blast intro: settles_refl)
qed

lemma looks_on_disable:
  assumes "task_clock_on_disable E s = Inr t"
  shows "looks E s t"
  by (rule looks_bind[OF assms[unfolded task_clock_on_disable_def Let_def]])
    (simp only: calm_flags, intro calm_intro calm_refl, rule owing_needed)

lemma looks_add_ticks:
  assumes "task_clock_add_ticks E s n = Inr t"
  shows "looks E s t"
  by (rule looks_bind[OF assms[unfolded task_clock_add_ticks_def Let_def]])
    (intro calm_intro calm_refl, simp add: owing_def owed_def inc_clock_ticks_no_chunk_add_def)

lemma looks_stop:
  assumes "task_clock_entry_stop E s = Inr t"
  shows "looks E s t"
  by (rule looks_bind[OF assms[unfolded task_clock_entry_stop_def Let_def]])
    (intro calm_intro calm_refl, intro owing_same_sched sched_intro same_sched_refl)

lemma looks_wait:
  assumes "task_clock_entry_wait E s = Inr t"
  shows "looks E s t"
  by (rule looks_bind[OF assms[unfolded task_clock_entry_wait_def] calm_refl owing_refl])

lemma decides_on_enable:
  assumes "task_clock_on_enable E s = Inr t"
  shows "decides E s t"
proof -
  from on_enable_steps[OF assms] obtain u v w where
    u: "logical_clock_update_overflow_period E
       (logical_clock_reset_overflow_period E
         (tick_counter_turn_on E (reset_chunk_ticks s (cur E))) (cur E)) (cur E) = Inr u"
    and d: "determine_lowest_and_notify_or_wait E
       (if userspace_reading (clocks u (cur E))
        then logical_clock_set_perf_counter E
               (upd_clock (cur E) (\<lambda>e. e\<lparr>userspace_reading := False\<rparr>) u) (cur E)
        else u) = Inr (v, w)"
    and w: "wake_if (clear_entry_state E (if lowest_tid v = cur E
       then v\<lparr>notification_needed := True, nmi_new_low := False\<rparr> else v), w) = Inr t" .
  have "calm (cur E) (cur E) s u"
    by (rule calm_update_overflow[OF _ u]) (intro calm_intro calm_refl)
  moreover have "same_sched s u"
    by (rule same_sched_update_overflow[OF _ u]) (intro sched_intro same_sched_refl)
  ultimately show ?thesis
    by (intro decidesI[OF _ _ d _ w] settles_clear calm_intro calm_upd_clock owing_same_sched
        sched_intro same_sched_upd_clock) simp_all
qed

lemma decides_start_counter:
  assumes "decides E s t"
  shows "decides E s (t\<lparr>start_counter := n\<rparr>)"
proof -
  from assms obtain u v v' w where "calm (cur E) (cur E) s u" "owing (cur E) s u"
    "determine_lowest_and_notify_or_wait E u = Inr (v, w)" "settles (cur E) v v'"
    and w: "wake_if (v', w) = Inr t" by (auto simp: decides_def)
  moreover from w have "wake_if (v'\<lparr>start_counter := n\<rparr>, w) = Inr (t\<lparr>start_counter := n\<rparr>)"
    by (auto simp: wake_if_def wake_up_waiting_thread_def is_sleeping_def upd_event_def upd_clock_def
        upd_ustat_def emit_def split: if_splits option.splits)
  ultimately show ?thesis by (intro decidesI[of E s u v w "v'\<lparr>start_counter := n\<rparr>"]) simp_all
qed

lemma decides_start:
  assumes "task_clock_entry_start E s = Inr t"
  shows "decides E s t"
proof -
  let ?s = "logical_clock_reset_current_ticks E
              (upd_ustat (cur E) (\<lambda>u. u\<lparr>us_notifying_id := 0\<rparr>) s) (cur E)"
  from assms obtain u where u: "task_clock_on_enable E ?s = Inr u"
    and t: "t = u\<lparr>start_counter := start_counter u + 1\<rparr>"
    by (auto simp: task_clock_entry_start_def Let_def)
  have "calm (cur E) (cur E) s ?s" by (intro calm_intro calm_upd_ustat calm_refl) simp
  moreover have "owing (cur E) s ?s" by (intro owing_same_sched sched_intro same_sched_refl)
  ultimately have "decides E s u" using decides_calm_before decides_on_enable[OF u] by blast
  then show ?thesis
    unfolding t by (rule decides_start_counter)
qed

lemma sleep_loop_decides:
  assumes "\<forall>E\<in>set Es. call_ok M E \<and> cur E = j" "sleep_loop Es s = Inr (v', w)" "la_rep (active_threads s) xs"
  shows "\<exists>E\<in>set Es. \<exists>u v. calm j j s u \<and> owing j s u \<and>
     determine_lowest_and_notify_or_wait E u = Inr (v, w) \<and> settles j v v' \<and>
     waiting (clocks v' j) = waiting (clocks v j)"
  using assms
proof (induction Es arbitrary: s)
  case Nil
  then show ?case by simp
next
  case (Cons E Es)
  from Cons.prems(2) obtain t l again where "sleep_round E s = Inr (t, l, again)"
    and rest: "(if again then sleep_loop Es t else Inr (t, l)) = Inr (v', w)"
    by (cases "sleep_round E s") auto
  then obtain v where det: "determine_lowest_and_notify_or_wait E s = Inr (v, l)"
    and t: "t = (if waiting (clocks v (cur E))
                 then upd_clock (cur E) (\<lambda>e. e\<lparr>sleeping := True\<rparr>) v else v)"
    and ag: "again \<Longrightarrow> l < 0"
    by (cases "determine_lowest_and_notify_or_wait E s")
      (auto simp: sleep_round_def Let_def split: if_splits)
  have j: "cur E = j" and ok: "call_ok M E" using Cons.prems(1) by simp_all
  have cm: "calm j j s t" using determine_calm(1)[OF det] by (simp add: t j calm_upd_clock)
  have st: "settles j v t" "waiting (clocks t j) = waiting (clocks v j)" by (simp_all add: t j settles_upd)
  show ?case
  proof (cases again)
    case True
    have "owed t = owed v" by (simp add: t owed_def fun_eq_iff)
    with determine_owing[OF Cons.prems(3) ok det ag[OF True]] j have ow: "owing j s t"
      by (simp add: owing_def)
    have "la_rep (active_threads t) xs" using Cons.prems(3) keeps_list[OF calm_keeps[OF cm]] by simp
    with True Cons.IH[of t] Cons.prems(1) rest obtain E' u v1 where r: "E' \<in> set Es" "calm j j t u" "owing j t u"
      "determine_lowest_and_notify_or_wait E' u = Inr (v1, w)" "settles j v1 v'"
      "waiting (clocks v' j) = waiting (clocks v1 j)" by auto
    have "calm j j s u" "owing j s u"
      using calm_trans[OF cm r(2)] owing_trans[OF calm_keeps[OF cm] ow r(3)] .
    with r show ?thesis by (metis list.set_intros(2))
  next
    case False
    with rest det st show ?thesis by (intro bexI[of _ E] exI[of _ s] exI[of _ v]) auto
  qed
qed

lemma looks_sleep:
  assumes "\<forall>E\<in>set Es. call_ok M E \<and> cur E = j" "task_clock_entry_sleep Es s = Inr t"
    "la_rep (active_threads s) xs"
  shows "\<exists>E\<in>set Es. looks E s t"
proof -
  from assms(2) obtain v w where v: "sleep_loop Es s = Inr (v, w)" and w: "wake_if (v, w) = Inr t"
    by (cases "sleep_loop Es s") (auto simp: task_clock_entry_sleep_def)
  from sleep_loop_decides[OF assms(1) v assms(3)] obtain E u v1 where E: "E \<in> set Es" and
    p: "calm j j s u" "owing j s u" "determine_lowest_and_notify_or_wait E u = Inr (v1, w)" "settles j v1 v"
    and wt: "waiting (clocks v j) = waiting (clocks v1 j)"
    by blast
  have "cur E = j" using E assms(1) by simp
  with p w have "looks E s t" unfolding looks_def using wt by blast
  with E show ?thesis by blast
qed

lemma calm_stop_no_notify: "calm i (cur E) s (task_clock_entry_stop_no_notify E s)"
  unfolding task_clock_entry_stop_no_notify_def by (intro calm_intro calm_refl)

lemma calm_start_no_notify: "calm i (cur E) s (task_clock_entry_start_no_notify E s)"
  unfolding task_clock_entry_start_no_notify_def Let_def calm_flags
  by (intro calm_intro calm_upd_ustat calm_upd_clock calm_refl) simp_all

lemma calm_woke_up: "calm i (cur E) s (task_clock_entry_woke_up E s)"
  by (simp add: calm_def keeps_def task_clock_entry_woke_up_def)

lemma owing_woke_up: "owing (cur E) s (task_clock_entry_woke_up E s)"
  by (simp add: owing_def owed_def task_clock_entry_woke_up_def)

lemma calm_single_step:
  "task_clock_entry_is_singlestep E s flags = (t, flags', r) \<Longrightarrow> calm i (cur E) s t"
  using calm_counter(7)[OF calm_refl, of i E s flags] by (simp add: task_clock_entry_is_singlestep_def)

lemma calm_overflow:
  "task_clock_overflow_handler E s flags = Inr (t, flags') \<Longrightarrow> calm i j s t"
  by (auto simp: task_clock_overflow_handler_def Let_def split: if_splits)

lemma calm_update_period:
  assumes "task_clock_entry_overflow_update_period E s = Inr t"
  shows "calm i (cur E) s t"
proof (cases "tick_counter_is_running E s")
  case True
  with assms have "logical_clock_update_overflow_period E
      (logical_clock_update_clock_ticks E s (cur E)) (cur E) = Inr t"
    by (simp add: task_clock_entry_overflow_update_period_def)
  then show ?thesis by (rule calm_update_overflow[rotated]) (intro calm_intro calm_refl)
qed (use assms in \<open>simp add: task_clock_entry_overflow_update_period_def\<close>)

lemma calm_machine:
  "same_sched s t \<Longrightarrow> \<forall>k. ticks (clocks t k) = ticks (clocks s k) \<and>
     us_lowest_clock (ustat t k) = us_lowest_clock (ustat s k) \<Longrightarrow> effects t = effects s \<Longrightarrow> calm i j s t"
  by (auto simp: calm_def keeps_def same_sched_def wakeups_def)

lemma same_sched_stop_no_notify: "same_sched s (task_clock_entry_stop_no_notify E s)"
  unfolding task_clock_entry_stop_no_notify_def by (intro sched_intro same_sched_refl)

lemma same_sched_start_no_notify: "same_sched s (task_clock_entry_start_no_notify E s)"
proof -
  have "same_sched s (t\<lparr>start_counter := n\<rparr>) = same_sched s t" for t n
    by (simp add: same_sched_def)
  then show ?thesis
    unfolding task_clock_entry_start_no_notify_def Let_def
    by (simp only:) (intro sched_intro same_sched_upd_clock same_sched_refl; simp)
qed

lemma same_overflow:
  "task_clock_overflow_handler E s flags = Inr (t, flags') \<Longrightarrow>
   clocks t = clocks s \<and> ustat t = ustat s \<and> lowest_tid t = lowest_tid s \<and>
   notification_needed t = notification_needed s"
  by (auto simp: task_clock_overflow_handler_def Let_def split: if_splits)

lemma same_sched_update_period:
  assumes "task_clock_entry_overflow_update_period E s = Inr t"
  shows "same_sched s t"
proof (cases "tick_counter_is_running E s")
  case True
  with assms have "logical_clock_update_overflow_period E
      (logical_clock_update_clock_ticks E s (cur E)) (cur E) = Inr t"
    by (simp add: task_clock_entry_overflow_update_period_def)
  then show ?thesis
    by (rule same_sched_update_overflow[rotated]) (intro sched_intro same_sched_refl)
qed (use assms in \<open>simp add: task_clock_entry_overflow_update_period_def\<close>)

lemma same_sched_single_step:
  "task_clock_entry_is_singlestep E s flags = (t, flags', r) \<Longrightarrow> same_sched s t"
  using same_sched_on_single_step[OF same_sched_refl, of s E flags]
  by (simp add: task_clock_entry_is_singlestep_def)

text \<open>The queued work sets the flag of nobody but the thread with the turn.\<close>

lemma notify_effect:
  assumes rep: "la_rep (active_threads s) xs" and ok: "call_ok M E"
    and nt: "task_clock_notify_waiting_threads E s = Inr t"
  shows "keeps j s t" "get_clock_ticks t k = get_clock_ticks s k"
    "told s t k \<Longrightarrow> has_turn s k"
proof -
  from nt obtain l where l: "search_for_lowest_waiting E s = Inr l"
    and w: "wake_if
       (if l \<ge> 0 \<and> thread_is_waiting s l
        then if notification_needed (set_new_low s l) \<or> nmi_new_low (set_new_low s l)
             then ((set_new_low s l)\<lparr>nmi_new_low := False, notification_needed := False\<rparr>,
                   lowest_tid ((set_new_low s l)\<lparr>nmi_new_low := False, notification_needed := False\<rparr>))
             else (set_new_low s l, -1)
        else (s, -1)) = Inr t"
    unfolding task_clock_notify_waiting_threads_def Let_def bindE_eq_Inr by blast
  have turn: "has_turn s l" if "0 \<le> l"
    using search_for_lowest_waiting_Inr[OF rep call_okD(3)[OF ok] l] that
    by (auto simp: has_turn_rep[OF rep])
  from w obtain u m where u: "wake_if (u, m) = Inr t" "clocks u = clocks s" "ustat u = ustat s"
    "active_threads u = active_threads s" "wakeups u = wakeups s"
    "m \<noteq> -1 \<longrightarrow> lowest_tid u = l \<and> m = l \<and> 0 \<le> l"
    by (auto simp: set_new_low_def split: if_splits)
  from wake_if_keeps(1,2)[OF u(1)] u(2-5) show "keeps j s t" "get_clock_ticks t k = get_clock_ticks s k"
    by (auto simp: keeps_def get_clock_ticks_def)
  show "told s t k \<Longrightarrow> has_turn s k"
    using wake_if_keeps(3)[OF u(1), of k] u(3,5,6) turn by (auto simp: told_def)
qed

text \<open>
  All calls fall into five groups: those that decide, those that leave all flags alone, the
  queued work, a halt, which leaves the list and decides, and a reset.
\<close>

lemma runs_groups:
  assumes run: "runs M j s t" and rep: "la_rep (active_threads s) xs"
  obtains (decide) E where "call_ok M E" "cur E = j" "decides E s t"
  | (quiet) "\<forall>i. calm i j s t" "owing j s t"
  | (work) E where "call_ok M E" "task_clock_notify_waiting_threads E s = Inr t"
  | (leave) E u v w where "call_ok M E" "cur E = j" "mark_as_inactive s j = Inr u"
      "determine_lowest_and_notify_or_wait E u = Inr (v, w)"
      "wake_if (upd_clock j (\<lambda>e. e\<lparr>waiting := False\<rparr>) v, w) = Inr t"
  | (forget) "t = upd_clock j (\<lambda>e. e\<lparr>initialized := False\<rparr>) s"
  using run
proof cases
  case (sleep Es)
  with looks_sleep[OF sleep rep] obtain E where "E \<in> set Es" "decides E s t" using looks_decides by blast
  with sleep(1) decide show ?thesis by blast
next
  case (halt E)
  then show ?thesis using leave by (auto elim!: halt_Inr)
next
  case (reset E)
  then show ?thesis using forget by (simp add: task_clock_entry_reset_def)
next
  case (start E)
  then show ?thesis by (intro decide decides_start)
next
  case (on_enable E)
  then show ?thesis by (intro decide decides_on_enable)
next
  case (on_disable E)
  then show ?thesis by (intro decide looks_decides looks_on_disable)
next
  case (add_ticks E n)
  then show ?thesis by (intro decide looks_decides looks_add_ticks)
next
  case (wait E)
  then show ?thesis by (intro decide looks_decides looks_wait)
next
  case (stop E)
  then show ?thesis by (intro decide looks_decides looks_stop)
next
  case (woke_up E)
  then show ?thesis using calm_woke_up[of _ E s] owing_woke_up[of E s] by (intro quiet) simp_all
next
  case (stop_no_notify E)
  then show ?thesis using same_sched_stop_no_notify[of s E] calm_stop_no_notify[of _ E s]
    by (intro quiet) (simp_all add: owing_same_sched)
next
  case (start_no_notify E)
  then show ?thesis using same_sched_start_no_notify[of s E] calm_start_no_notify[of _ E s]
    by (intro quiet) (simp_all add: owing_same_sched)
next
  case (notify E)
  then show ?thesis by (intro work)
next
  case (overflow E flags flags')
  then show ?thesis using same_overflow[of E s flags t flags']
    by (intro quiet) (auto simp: owing_def owed_def intro: calm_overflow)
next
  case (update_period E)
  then show ?thesis using same_sched_update_period[of E s t]
    by (intro quiet) (auto intro: calm_update_period owing_same_sched)
next
  case (single_step E flags flags' r)
  then show ?thesis using same_sched_single_step[of E s flags t flags' r]
    by (intro quiet) (auto intro: calm_single_step owing_same_sched)
next
  case machine
  then show ?thesis
    by (intro quiet) (auto intro: calm_machine owing_same_sched)
qed

subsection \<open>What a call does to the turn\<close>

lemma alone_on_list:
  assumes rep: "la_rep (active_threads s) xs" and on: "cur E \<in> set xs"
    and act: "\<not> inactive (clocks s (cur E))"
    and who: "initialized (clocks s (cur E)) \<or> (\<exists>i. i \<noteq> cur E \<and> has_turn s i)"
    and kp: "keeps (cur E) s u" and al: "current_is_only_active_thread E u"
  shows "has_turn u (cur E)"
proof -
  have rep': "la_rep (active_threads u) xs" using rep keeps_list[OF kp] by simp
  with al have "length xs = 1" by (simp add: current_is_only_active_thread_def la.size_rep)
  with on have xs: "xs = [cur E]" by (cases xs) auto
  with who have "initialized (clocks s (cur E))"
    by (auto simp: has_turn_rep[OF rep] least_of_def)
  with act kp have "candidate u (cur E)" by (auto simp: candidate_def keeps_def)
  then show ?thesis by (auto simp: has_turn_rep[OF rep'] xs least_of_def)
qed

lemma leaving_has_turn:
  assumes rep: "la_rep (active_threads s) xs" and M: "M \<le> LISTARRAY_MAX_SIZE" and j: "valid_id M j"
    and u: "mark_as_inactive s j = Inr u"
  shows "la_rep (active_threads u) (remove1 j xs)" "has_turn s i \<Longrightarrow> i \<noteq> j \<Longrightarrow> has_turn u i"
    "told u = told s" "inactive (clocks u j)" "get_clock_ticks u k = get_clock_ticks s k"
    "k \<noteq> j \<Longrightarrow> clocks u k = clocks s k"
proof -
  from u obtain la where la: "listarray_remove (active_threads s) j = Inr la"
    and u': "u = upd_clock j (\<lambda>e. e\<lparr>inactive := True\<rparr>) s\<lparr>active_threads := la\<rparr>"
    by (auto simp: mark_as_inactive_def Let_def)
  from la.del_Inr[OF rep valid_id_in_range[OF j M] la]
  show rep': "la_rep (active_threads u) (remove1 j xs)" by (simp add: u')
  show tk: "get_clock_ticks u k = get_clock_ticks s k" for k by (simp add: u' get_clock_ticks_def)
  then have "least_of u = least_of s" by (intro least_of_cong ext)
  moreover have "{k \<in> set (remove1 j xs). candidate u k} = {k \<in> set xs. candidate s k} - {j}"
    using la_rep_distinct[OF rep] by (auto simp: u' candidate_def)
  ultimately show "has_turn s i \<Longrightarrow> i \<noteq> j \<Longrightarrow> has_turn u i"
    by (auto simp: has_turn_rep[OF rep] has_turn_rep[OF rep'] least_of_def)
  show "told u = told s" "inactive (clocks u j)" "k \<noteq> j \<Longrightarrow> clocks u k = clocks s k"
    by (simp_all add: u' told_def wakeups_def fun_eq_iff)
qed

lemma leaving_keeps:
  assumes "determine_lowest_and_notify_or_wait E u = Inr (v, w)"
    "wake_if (upd_clock (cur E) (\<lambda>e. e\<lparr>waiting := False\<rparr>) v, w) = Inr t"
  shows "keeps (cur E) u t"
  using calm_keeps[OF determine_calm(1)[OF assms(1)]] wake_if_keeps(1)[OF assms(2), of "cur E"]
    settles_upd[OF settles_refl[of "cur E" v], of "\<lambda>e. e\<lparr>waiting := False\<rparr>"]
  by (auto simp: settles_def intro: keeps_trans)

lemma mark_as_inactive_same:
  assumes "mark_as_inactive s j = Inr u"
  shows "ustat u = ustat s" "wakeups u = wakeups s" "owed u = owed s"
  using assms by (auto simp: mark_as_inactive_def owed_def wakeups_def bindE_eq_Inr Let_def fun_eq_iff)

lemma runs_effect:
  assumes run: "runs M j s t" and inv: "tc_inv M s" and M: "M \<le> LISTARRAY_MAX_SIZE"
    and on: "on_list s j" and up: "get_clock_ticks s j \<le> get_clock_ticks t j"
    and who: "initialized (clocks s j) \<or> (\<exists>i. i \<noteq> j \<and> has_turn s i)"
  shows "(\<forall>i. i \<noteq> j \<longrightarrow> has_turn s i \<longrightarrow> has_turn t i) \<and>
    (\<forall>k. told s t k \<longrightarrow> has_turn t k)"
proof -
  from inv obtain xs where rep: "la_rep (active_threads s) xs"
    and act: "\<forall>k\<in>set xs. valid_id M k \<and> \<not> inactive (clocks s k)" by (rule tc_invE)
  have jx: "j \<in> set xs" using on by (simp add: on_list_rep[OF rep])
  have move: "has_turn t i" if "keeps j s t" "i \<noteq> j" "has_turn s i" for i
    using keeps_has_turn[OF that(1) rep _ that(3)] act that(2) up by simp
  from run rep show ?thesis
  proof (cases rule: runs_groups)
    case (decide E)
    note e = decides_effect[OF decide(3) rep decide(1)]
    have al: "has_turn u (cur E)" if "keeps (cur E) s u" "current_is_only_active_thread E u" for u
      using alone_on_list[OF rep _ _ _ that] jx act who decide(2) by simp
    have "keeps j s t" using e(1)[OF _ al] act decide(2) by simp
    moreover have "told s t k \<Longrightarrow> has_turn t k" for k
      using e(3)[OF _ al] act decide(2) by simp
    ultimately show ?thesis using move by blast
  next
    case quiet
    have "\<not> told s t k" for k
      using quiet(1)[rule_format, of "k + 1"] by (auto simp: calm_def told_def dest!: spec[of _ k])
    with quiet(1) move show ?thesis by (blast dest: calm_keeps)
  next
    case (work E)
    note n = notify_effect[OF rep work]
    have "has_turn t i" if "has_turn s i" for i
      using keeps_has_turn[OF n(1)[of j] rep _ that] act n(2) by simp
    with n(3) show ?thesis by blast
  next
    case (leave E u v w)
    note l = leaving_has_turn[OF rep M call_okD(1)[OF leave(1)], unfolded leave(2), OF leave(3)]
    have gone: "j \<notin> set (remove1 j xs)" using la_rep_distinct[OF rep] by simp
    have st: "settles (cur E) v (upd_clock j (\<lambda>e. e\<lparr>waiting := False\<rparr>) v)"
      by (simp add: leave(2) settles_upd)
    have na: "\<not> current_is_only_active_thread E u"
      using l(4) leave(2) by (simp add: current_is_only_active_thread_def)
    note e = decision_effect[OF calm_refl leave(4) st leave(5) l(1) leave(1), unfolded leave(2)]
    have kp: "keeps j u t" using e(1) gone na by blast
    have "has_turn t i" if "i \<noteq> j" "has_turn s i" for i
      by (rule keeps_has_turn[OF kp l(1) _ l(2)[OF that(2,1)]]) (use gone that(1) up l(5) in auto)
    moreover have "told s t k \<Longrightarrow> has_turn t k" for k
      using e(3) gone na l(3) by simp
    ultimately show ?thesis by blast
  next
    case forget
    have rep': "la_rep (active_threads t) xs" using rep by (simp add: forget)
    have "get_clock_ticks t = get_clock_ticks s" by (auto simp: forget get_clock_ticks_def)
    then have "least_of t = least_of s" by (rule least_of_cong)
    moreover have "candidate t k \<longleftrightarrow> candidate s k \<and> k \<noteq> j" for k by (simp add: forget candidate_def)
    ultimately have "has_turn t i" if "i \<noteq> j" "has_turn s i" for i
      using that by (auto simp: has_turn_rep[OF rep] has_turn_rep[OF rep'] least_of_def)
    then show ?thesis by (simp add: forget told_def)
  qed
qed

lemma others_step_keeps_turn:
  assumes st: "others_step M i s t" and inv: "tc_inv M s" and M: "M \<le> LISTARRAY_MAX_SIZE"
    and turn: "has_turn s i"
  shows "has_turn t i \<and> (\<forall>k. k \<noteq> i \<longrightarrow> \<not> told s t k)"
proof -
  from st obtain j where j: "j \<noteq> i" "on_list s j" "runs M j s t"
    and up: "get_clock_ticks s j \<le> get_clock_ticks t j" by (auto simp: others_step_def)
  have "initialized (clocks s j) \<or> (\<exists>i. i \<noteq> j \<and> has_turn s i)" using j(1) turn by auto
  from runs_effect[OF j(3) inv M j(2) up this] j(1)[symmetric] turn
  have t: "has_turn t i" "\<forall>k. told s t k \<longrightarrow> has_turn t k"
    by blast+
  then show ?thesis using has_turn_unique[of t] by blast
qed

lemma others_steps_keep_turn:
  assumes "(others_step M i)\<^sup>*\<^sup>* s t" "tc_reach M s" "M \<le> LISTARRAY_MAX_SIZE" "has_turn s i"
  shows "tc_reach M t \<and> has_turn t i \<and>
     (\<forall>k. k \<noteq> i \<longrightarrow> \<not> told s t k)"
  using assms(1)
proof (induction rule: rtranclp_induct)
  case base
  show ?case using assms(2,4) by (simp add: told_def)
next
  case (step t u)
  have "tc_inv M t" using tc_reach_inv step.IH assms(3) by blast
  from others_step_keeps_turn[OF step.hyps(2) this assms(3)] step.IH
  have "has_turn u i" and "\<forall>k. k \<noteq> i \<longrightarrow> \<not> told t u k"
    by blast+
  moreover have "tc_reach M u"
    using step.IH step.hyps(2) tc_reach.step runs_tc_step by (fastforce simp: others_step_def)
  ultimately show ?case using step.IH by (force simp: told_def)
qed

text \<open>What a call leaves alone of the other threads, and of its own thread while its clock stands.\<close>

lemma runs_frame:
  assumes run: "runs M j s t" and inv: "tc_inv M s" and M: "M \<le> LISTARRAY_MAX_SIZE" and on: "on_list s j"
  shows "k \<noteq> j \<Longrightarrow> get_clock_ticks t k = get_clock_ticks s k \<and>
      initialized (clocks t k) = initialized (clocks s k) \<and> on_list t k = on_list s k"
    "has_turn s j \<Longrightarrow> get_clock_ticks t j = get_clock_ticks s j \<Longrightarrow> on_list t j \<Longrightarrow>
      initialized (clocks t j) \<Longrightarrow> has_turn t j"
proof -
  from inv obtain xs where rep: "la_rep (active_threads s) xs"
    and act: "\<forall>k\<in>set xs. valid_id M k \<and> \<not> inactive (clocks s k)" by (rule tc_invE)
  have jx: "j \<in> set xs" using on by (simp add: on_list_rep[OF rep])
  have kept: "(k \<noteq> j \<longrightarrow> get_clock_ticks t k = get_clock_ticks s k \<and>
      initialized (clocks t k) = initialized (clocks s k) \<and> on_list t k = on_list s k) \<and>
    (has_turn s j \<longrightarrow> get_clock_ticks t j = get_clock_ticks s j \<longrightarrow> has_turn t j)" if kp: "keeps j s t" for k
    using keeps_clock[OF kp] keeps_list[OF kp] kp keeps_has_turn[OF kp rep, of j] act jx
    by (auto simp: on_list_def keeps_def)
  have all: "(k \<noteq> j \<longrightarrow> get_clock_ticks t k = get_clock_ticks s k \<and>
      initialized (clocks t k) = initialized (clocks s k) \<and> on_list t k = on_list s k) \<and>
    (has_turn s j \<longrightarrow> get_clock_ticks t j = get_clock_ticks s j \<longrightarrow> on_list t j \<longrightarrow>
      initialized (clocks t j) \<longrightarrow> has_turn t j)" for k
    using run rep
  proof (cases rule: runs_groups)
    case (decide E)
    from kept[OF decides_keeps[OF decide(3), unfolded decide(2)]] show ?thesis by blast
  next
    case quiet
    from kept[OF calm_keeps] quiet(1) show ?thesis by blast
  next
    case (work E)
    from kept[OF notify_effect(1)[OF rep work]] show ?thesis by blast
  next
    case (leave E u v w)
    note l = leaving_has_turn[OF rep M call_okD(1)[OF leave(1)], unfolded leave(2), OF leave(3)]
    have kp: "keeps j u t" using leaving_keeps[of E, unfolded leave(2)] leave(4,5) by blast
    have "\<not> on_list t j"
      using keeps_list[OF kp] l(1) la_rep_distinct[OF rep] by (simp add: on_list_rep)
    moreover have "k \<noteq> j \<Longrightarrow> on_list t k = on_list s k"
      using keeps_list[OF kp] l(1) rep by (simp add: on_list_rep)
    ultimately show ?thesis
      using keeps_clock[OF kp, of k] l(5)[of k] l(6)[of k] kp by (auto simp: keeps_def)
  next
    case forget
    then show ?thesis by (auto simp: get_clock_ticks_def on_list_def)
  qed
  from all[of k] show "k \<noteq> j \<Longrightarrow> get_clock_ticks t k = get_clock_ticks s k \<and>
      initialized (clocks t k) = initialized (clocks s k) \<and> on_list t k = on_list s k" by blast
  from all show "has_turn s j \<Longrightarrow> get_clock_ticks t j = get_clock_ticks s j \<Longrightarrow> on_list t j \<Longrightarrow>
      initialized (clocks t j) \<Longrightarrow> has_turn t j" by blast
qed


text \<open>Thread 1 adds ticks and goes to sleep; thread 0 still has the turn.\<close>

lemma two_threads_turn: "has_turn two_threads 0"
  by (auto simp: has_turn_def two_threads_def active_list_01 running_entry_def least_of_def
      list_defs state_defs concrete_defs)

lemma two_threads_list: "on_list two_threads 0" "on_list two_threads 1"
  by (auto simp: on_list_def two_threads_def active_list_01 list_defs Let_def tc_macro)

lemma two_threads_add:
  "\<exists>t. task_clock_add_ticks (thread 1) two_threads 10 = Inr t \<and> get_clock_ticks t 1 = 11 \<and>
     active_threads t = active_threads two_threads"
  by (simp add: two_threads_def running_entry_def active_list_01 concrete_defs state_defs list_defs
      decision_defs task_clock_add_ticks_def)


text \<open>Negative ticks do take the turn: thread 0 goes ahead of thread 1 and comes back.\<close>

lemma negative_ticks_run:
  "\<exists>t u. task_clock_add_ticks (thread 0) two_threads 10 = Inr t \<and> task_clock_add_ticks (thread 0) t (- 10) = Inr u \<and>
     active_threads t = active_threads two_threads \<and> active_threads u = active_threads two_threads \<and>
     candidate t 0 \<and> candidate t 1 \<and> candidate u 0 \<and>
     get_clock_ticks t 0 = 10 \<and> get_clock_ticks t 1 = 1 \<and> get_clock_ticks u 0 = 0 \<and> get_clock_ticks u 1 = 1"
  by (simp add: two_threads_def running_entry_def active_list_01 concrete_defs state_defs list_defs
      decision_defs task_clock_add_ticks_def lowest_clock_mapped_def sizeof_user_status_def PAGE_SIZE_def)

lemma negative_ticks_take_turn:
  "\<exists>t u. task_clock_add_ticks (thread 0) two_threads 10 = Inr t \<and> has_turn t 1 \<and>
     task_clock_add_ticks (thread 0) t (- 10) = Inr u \<and> \<not> has_turn u 1"
proof -
  obtain t u where t: "task_clock_add_ticks (thread 0) two_threads 10 = Inr t"
      "task_clock_add_ticks (thread 0) t (- 10) = Inr u"
    and l: "active_threads t = active_threads two_threads" "active_threads u = active_threads two_threads"
    and c: "candidate t 0" "candidate t 1" "candidate u 0"
      "get_clock_ticks t 0 = 10" "get_clock_ticks t 1 = 1" "get_clock_ticks u 0 = 0" "get_clock_ticks u 1 = 1"
    using negative_ticks_run by blast
  have "listarray_foreach (active_threads two_threads) = Inr [0, 1]"
    by (simp add: two_threads_def active_list_01 list_defs Let_def tc_macro)
  then have "has_turn t 1" "\<not> has_turn u 1"
    using l c by (auto simp: has_turn_def least_of_def clock_is_lower_def)
  with t show ?thesis by blast
qed

end
