(* ===== verification/Sync_Order.thy ===== *)
theory Sync_Order
  imports Clock_Calls
begin

text \<open>
  What the program is for: the order in which the threads of a process get to their
  synchronisation operations is fixed by the instructions they execute between them, whatever
  the timing of the calls, the interrupts and the wake-ups.
\<close>

subsection \<open>The order as a function of the program\<close>

text \<open>
  \<open>P i h\<close> is the number of instructions that thread \<open>i\<close> executes from its last operation to the
  next one when the operations so far were \<open>h\<close> (all a deterministic thread can have seen of the
  others), or \<open>None\<close> when it makes no more. \<open>D i\<close> is the clock at which the next operation of \<open>i\<close>
  is due.
\<close>

type_synonym program = "tid \<Rightarrow> tid list \<Rightarrow> nat option"
type_synonym dues = "tid \<Rightarrow> nat option"

definition due_lower :: "dues \<Rightarrow> tid \<Rightarrow> tid \<Rightarrow> bool" where
  "due_lower D i j \<longleftrightarrow> the (D i) < the (D j) \<or> the (D i) = the (D j) \<and> i < j"

interpretation due_order: strict_choice "due_lower D" for D
  by unfold_locales (auto simp: due_lower_def)

definition next_due :: "int \<Rightarrow> dues \<Rightarrow> tid" where
  "next_due M D = scan_least (\<lambda>i. D i \<noteq> None) (due_lower D) (-1) [0..M - 1]"

definition after_sync :: "program \<Rightarrow> tid \<Rightarrow> dues \<times> tid list \<Rightarrow> dues \<times> tid list" where
  "after_sync P i r = (case r of (D, h) \<Rightarrow>
     (D(i := map_option (\<lambda>n. the (D i) + n) (P i (h @ [i]))), h @ [i]))"

definition sync_next :: "int \<Rightarrow> program \<Rightarrow> dues \<times> tid list \<Rightarrow> dues \<times> tid list" where
  "sync_next M P r =
     (let i = next_due M (fst r) in if i < 0 then r else after_sync P i r)"

fun sync_steps :: "int \<Rightarrow> program \<Rightarrow> dues \<Rightarrow> nat \<Rightarrow> dues \<times> tid list" where
  "sync_steps M P D 0 = (D, [])"
| "sync_steps M P D (Suc n) = sync_next M P (sync_steps M P D n)"

definition sync_order :: "int \<Rightarrow> program \<Rightarrow> dues \<Rightarrow> nat \<Rightarrow> tid list" where
  "sync_order M P D n = snd (sync_steps M P D n)"

subsection \<open>The program running on the module\<close>

text \<open>
  \<open>arrived\<close> are the threads that have come to their operation and wait for the turn, \<open>seen i\<close> is
  how often thread \<open>i\<close> had been woken when it arrived.
\<close>

record sync_state =
  kst :: kstate
  hist :: "tid list"
  due :: dues
  arrived :: "tid set"
  seen :: "tid \<Rightarrow> nat"

definition sync_start :: "kstate \<Rightarrow> dues \<Rightarrow> sync_state" where
  "sync_start s D = \<lparr>kst = s, hist = [], due = D, arrived = {}, seen = \<lambda>_. 0\<rparr>"

text \<open>The calls that decide, after which the thread looks at its page or sleeps.\<close>

inductive asks :: "int \<Rightarrow> tid \<Rightarrow> kstate \<Rightarrow> kstate \<Rightarrow> bool" for M j where
  on_disable: "call_ok M E \<Longrightarrow> cur E = j \<Longrightarrow> task_clock_on_disable E s = Inr t \<Longrightarrow> asks M j s t"
| add_ticks: "call_ok M E \<Longrightarrow> cur E = j \<Longrightarrow> task_clock_add_ticks E s n = Inr t \<Longrightarrow> asks M j s t"
| wait: "call_ok M E \<Longrightarrow> cur E = j \<Longrightarrow> task_clock_entry_wait E s = Inr t \<Longrightarrow> asks M j s t"
| sleep: "\<forall>E\<in>set Es. call_ok M E \<and> cur E = j \<Longrightarrow> task_clock_entry_sleep Es s = Inr t \<Longrightarrow> asks M j s t"
| stop: "call_ok M E \<Longrightarrow> cur E = j \<Longrightarrow> task_clock_entry_stop E s = Inr t \<Longrightarrow> asks M j s t"

text \<open>
  A call is in time if the thread does not run past its next operation, nor leave while it
  still has one; only active threads call, and no 64-bit clock wraps around.
\<close>

definition in_time :: "sync_state \<Rightarrow> tid \<Rightarrow> kstate \<Rightarrow> bool" where
  "in_time S j t \<longleftrightarrow> on_list (kst S) j \<and> initialized (clocks (kst S) j) \<and>
     get_clock_ticks (kst S) j \<le> get_clock_ticks t j \<and>
     (j \<in> arrived S \<longrightarrow> get_clock_ticks t j = get_clock_ticks (kst S) j) \<and>
     (\<forall>v. due S j = Some v \<longrightarrow>
        unat (get_clock_ticks t j) \<le> v \<and> on_list t j \<and> initialized (clocks t j))"

definition has_been_told :: "sync_state \<Rightarrow> tid \<Rightarrow> bool" where
  "has_been_told S i \<longleftrightarrow> us_lowest_clock (ustat (kst S) i) \<noteq> 0 \<or> seen S i < wakeups (kst S) i"

text \<open>
  A thread works and makes calls; it arrives at its operation with a call that decides; and
  once it has been told that it is the lowest it performs the operation.
\<close>

inductive sync_step :: "int \<Rightarrow> program \<Rightarrow> sync_state \<Rightarrow> sync_state \<Rightarrow> bool" for M P where
  call: "runs M j (kst S) t \<Longrightarrow> in_time S j t \<Longrightarrow> sync_step M P S (S\<lparr>kst := t\<rparr>)"
| arrive: "asks M j (kst S) t \<Longrightarrow> in_time S j t \<Longrightarrow> due S j = Some (unat (get_clock_ticks t j)) \<Longrightarrow>
    sync_step M P S (S\<lparr>kst := t, arrived := insert j (arrived S), seen := (seen S)(j := wakeups t j)\<rparr>)"
| sync: "i \<in> arrived S \<Longrightarrow> has_been_told S i \<Longrightarrow> after_sync P i (due S, hist S) = (D, h) \<Longrightarrow>
    sync_step M P S (S\<lparr>hist := h, due := D, arrived := arrived S - {i}\<rparr>)"

subsection \<open>What holds on the way\<close>

definition sync_inv :: "int \<Rightarrow> program \<Rightarrow> dues \<Rightarrow> sync_state \<Rightarrow> bool" where
  "sync_inv M P D S \<longleftrightarrow> tc_reach M (kst S) \<and>
     (\<forall>j v. due S j = Some v \<longrightarrow> on_list (kst S) j \<and> initialized (clocks (kst S) j) \<and>
        unat (get_clock_ticks (kst S) j) \<le> v) \<and>
     (\<forall>i\<in>arrived S. due S i = Some (unat (get_clock_ticks (kst S) i)) \<and>
        (has_been_told S i \<longrightarrow> has_turn (kst S) i)) \<and>
     (due S, hist S) = sync_steps M P D (length (hist S))"

lemma asks_runs: "asks M j s t \<Longrightarrow> runs M j s t"
  by (induction rule: asks.induct) (auto intro: runs.intros)

lemma asks_looks:
  assumes "asks M j s t" "la_rep (active_threads s) xs"
  shows "\<exists>E. call_ok M E \<and> cur E = j \<and> looks E s t"
  using assms
proof (induction rule: asks.induct)
  case (sleep Es s t)
  then show ?case using looks_sleep[of Es M j s t xs] by blast
qed (blast intro: looks_on_disable looks_add_ticks looks_wait looks_stop)+

text \<open>A call that decides sets the caller's flag only if the caller has the turn.\<close>

lemma asks_turn:
  assumes ask: "asks M j s t" and inv: "tc_inv M s" and on: "on_list s j" and ini: "initialized (clocks s j)"
    and flag: "us_lowest_clock (ustat t j) \<noteq> 0"
  shows "has_turn t j"
proof -
  from inv obtain xs where rep: "la_rep (active_threads s) xs"
    and act: "\<forall>k\<in>set xs. valid_id M k \<and> \<not> inactive (clocks s k)" by (rule tc_invE)
  have jx: "j \<in> set xs" using on by (simp add: on_list_rep[OF rep])
  from asks_looks[OF ask rep] obtain E where E: "call_ok M E" "cur E = j" "decides E s t"
    using looks_decides by blast
  have "has_turn u (cur E)" if "keeps (cur E) s u" "current_is_only_active_thread E u" for u
    using alone_on_list[OF rep _ _ _ that] jx act ini E(2) by simp
  from decides_effect(2)[OF E(3) rep E(1) _ this] act flag E(2) show ?thesis by simp
qed

text \<open>The thread with the turn, if it has arrived, is the one whose operation is due next.\<close>

lemma turn_is_next_due:
  assumes inv: "sync_inv M P D S" and M: "M \<le> LISTARRAY_MAX_SIZE" and i: "i \<in> arrived S"
    and turn: "has_turn (kst S) i"
  shows "next_due M (due S) = i" "0 \<le> i"
proof -
  let ?s = "kst S"
  from inv have reach: "tc_reach M ?s"
    and dues: "\<And>j v. due S j = Some v \<Longrightarrow> on_list ?s j \<and> initialized (clocks ?s j) \<and> unat (get_clock_ticks ?s j) \<le> v"
    and here: "due S i = Some (unat (get_clock_ticks ?s i))"
    using i by (auto simp: sync_inv_def)
  from reach_activeE[OF reach M] obtain xs where rep: "la_rep (active_threads ?s) xs"
    and act: "\<forall>i\<in>set xs. 0 \<le> i \<and> i < M \<and> \<not> inactive (clocks ?s i)" .
  have least: "least_of ?s {k \<in> set xs. candidate ?s k} i" using turn by (simp add: has_turn_rep[OF rep])
  have "due_lower (due S) i x" if x: "due S x \<noteq> None" "x \<noteq> i" for x
  proof -
    from x(1) obtain v where v: "due S x = Some v" by blast
    from dues[OF v] have "x \<in> set xs" "candidate ?s x" "unat (get_clock_ticks ?s x) \<le> v"
      using act by (auto simp: on_list_rep[OF rep] candidate_def)
    with least x(2) have "clock_is_lower ?s i x" by (simp add: least_of_def)
    with \<open>unat (get_clock_ticks ?s x) \<le> v\<close> here v show ?thesis
      by (auto simp: clock_is_lower_def due_lower_def word_less_nat_alt)
  qed
  moreover have "i \<in> set xs" using least by (simp add: least_of_def)
  with act have ib: "0 \<le> i" "i < M" by auto
  ultimately show "next_due M (due S) = i"
    unfolding next_due_def using here by (intro due_order.scan_least_eq) auto
  show "0 \<le> i" by (rule ib)
qed

lemma sync_inv_call:
  assumes inv: "sync_inv M P D S" and M: "M \<le> LISTARRAY_MAX_SIZE" and run: "runs M j (kst S) t"
    and time: "in_time S j t"
  shows "sync_inv M P D (S\<lparr>kst := t\<rparr>)"
proof -
  let ?s = "kst S"
  from inv have reach: "tc_reach M ?s"
    and dues: "\<And>j v. due S j = Some v \<Longrightarrow> on_list ?s j \<and> initialized (clocks ?s j) \<and> unat (get_clock_ticks ?s j) \<le> v"
    and arr: "\<And>i. i \<in> arrived S \<Longrightarrow> due S i = Some (unat (get_clock_ticks ?s i)) \<and>
        (has_been_told S i \<longrightarrow> has_turn ?s i)"
    and ord: "(due S, hist S) = sync_steps M P D (length (hist S))"
    by (auto simp: sync_inv_def)
  from time have on: "on_list ?s j" and ini: "initialized (clocks ?s j)"
    and up: "get_clock_ticks ?s j \<le> get_clock_ticks t j"
    and stay: "j \<in> arrived S \<Longrightarrow> get_clock_ticks t j = get_clock_ticks ?s j"
    and mine: "\<And>v. due S j = Some v \<Longrightarrow> unat (get_clock_ticks t j) \<le> v \<and> on_list t j \<and> initialized (clocks t j)"
    by (auto simp: in_time_def)
  have tc: "tc_inv M ?s" by (rule tc_reach_inv[OF reach M])
  have eff: "i \<noteq> j \<Longrightarrow> has_turn ?s i \<Longrightarrow> has_turn t i" "told ?s t i \<Longrightarrow> has_turn t i" for i
    using runs_effect[OF run tc M on up] ini by blast+
  note frame = runs_frame[OF run tc M on]
  have dues': "on_list t k \<and> initialized (clocks t k) \<and> unat (get_clock_ticks t k) \<le> v" if "due S k = Some v" for k v
    using that mine dues[OF that] frame(1)[of k] by (cases "k = j") auto
  moreover have "due S i = Some (unat (get_clock_ticks t i)) \<and> (has_been_told (S\<lparr>kst := t\<rparr>) i \<longrightarrow> has_turn t i)"
    if i: "i \<in> arrived S" for i
  proof -
    have clk: "get_clock_ticks t i = get_clock_ticks ?s i"
      using stay i frame(1)[of i] by (cases "i = j") auto
    have here: "due S i = Some (unat (get_clock_ticks t i))" using arr[OF i] clk by simp
    have "has_turn t i" if "has_turn ?s i"
      using eff(1)[OF _ that] frame(2) that clk dues'[OF here] by (cases "i = j") auto
    moreover have "has_been_told (S\<lparr>kst := t\<rparr>) i \<Longrightarrow> has_been_told S i \<or> told ?s t i"
      by (auto simp: has_been_told_def told_def)
    ultimately show ?thesis using here arr[OF i] eff(2) by blast
  qed
  moreover have "tc_reach M t" using tc_reach.step[OF reach runs_tc_step[OF run]] .
  ultimately show ?thesis using ord by (simp add: sync_inv_def)
qed

lemma sync_inv_arrive:
  assumes inv: "sync_inv M P D S" and M: "M \<le> LISTARRAY_MAX_SIZE" and ask: "asks M j (kst S) t"
    and time: "in_time S j t" and now: "due S j = Some (unat (get_clock_ticks t j))"
  shows "sync_inv M P D (S\<lparr>kst := t, arrived := insert j (arrived S), seen := (seen S)(j := wakeups t j)\<rparr>)"
    (is "sync_inv M P D ?S")
proof -
  have call: "sync_inv M P D (S\<lparr>kst := t\<rparr>)"
    by (rule sync_inv_call[OF inv M asks_runs[OF ask] time])
  have "tc_inv M (kst S)" using inv M tc_reach_inv by (auto simp: sync_inv_def)
  then have own: "has_been_told ?S j \<Longrightarrow> has_turn t j"
    using asks_turn[OF ask] time by (simp add: has_been_told_def in_time_def)
  have "i \<noteq> j \<Longrightarrow> has_been_told ?S i = has_been_told (S\<lparr>kst := t\<rparr>) i" for i
    by (simp add: has_been_told_def)
  then have "has_been_told ?S i \<Longrightarrow> has_turn t i" if "i \<in> insert j (arrived S)" for i
    using own call that by (cases "i = j") (auto simp: sync_inv_def)
  with call now show ?thesis by (auto simp: sync_inv_def)
qed

lemma sync_inv_sync:
  assumes inv: "sync_inv M P D S" and M: "M \<le> LISTARRAY_MAX_SIZE" and i: "i \<in> arrived S"
    and told: "has_been_told S i" and after: "after_sync P i (due S, hist S) = (D', h)"
  shows "sync_inv M P D (S\<lparr>hist := h, due := D', arrived := arrived S - {i}\<rparr>)"
proof -
  have turn: "has_turn (kst S) i" using inv i told by (auto simp: sync_inv_def)
  note nd = turn_is_next_due[OF inv M i turn]
  from after have h: "h = hist S @ [i]"
    and D': "D' = (due S)(i := map_option (\<lambda>n. the (due S i) + n) (P i (hist S @ [i])))"
    by (auto simp: after_sync_def)
  from inv have "(due S, hist S) = sync_steps M P D (length (hist S))" by (simp add: sync_inv_def)
  then have "sync_steps M P D (length h) = sync_next M P (due S, hist S)"
    by (simp add: h flip: \<open>(due S, hist S) = _\<close>)
  also have "\<dots> = (D', h)" using nd after by (simp add: sync_next_def Let_def)
  finally have "sync_steps M P D (length h) = (D', h)" .
  moreover have "has_been_told (S\<lparr>hist := h, due := D', arrived := arrived S - {i}\<rparr>) = has_been_told S"
    by (simp add: has_been_told_def fun_eq_iff)
  ultimately show ?thesis using inv i by (auto simp: sync_inv_def D')
qed

lemma sync_inv_run:
  assumes "(sync_step M P)\<^sup>*\<^sup>* S S'" "sync_inv M P D S" "M \<le> LISTARRAY_MAX_SIZE"
  shows "sync_inv M P D S'"
  using assms(1)
proof (induction rule: rtranclp_induct)
  case base
  show ?case by (rule assms(2))
next
  case (step S S')
  from step.hyps(2) step.IH assms(3) show ?case
    by (cases rule: sync_step.cases) (simp_all add: sync_inv_call sync_inv_arrive sync_inv_sync)
qed

lemma sync_inv_start:
  assumes "tc_reach M s" "\<forall>j v. D j = Some v \<longrightarrow>
      on_list s j \<and> initialized (clocks s j) \<and> unat (get_clock_ticks s j) \<le> v"
  shows "sync_inv M P D (sync_start s D)"
  using assms by (auto simp: sync_inv_def sync_start_def)

subsection \<open>The property\<close>

text \<open>
  C2: run a program of active threads on the module, in any interleaving of their calls, of
  overflow interrupts, queued work and single steps, each thread waiting at its
  synchronisation operations until the module tells it, by its page or by waking it, that it
  is the lowest. The operations performed so far are always the first ones of \<open>sync_order\<close>, which
  is computed from the instruction counts of the program alone. So two runs never perform
  their operations in different orders.
\<close>

theorem sync_order_deterministic:
  assumes "tc_reach M s" "M \<le> LISTARRAY_MAX_SIZE"
    and "\<forall>j v. D j = Some v \<longrightarrow> on_list s j \<and> initialized (clocks s j) \<and> unat (get_clock_ticks s j) \<le> v"
    and "(sync_step M P)\<^sup>*\<^sup>* (sync_start s D) S"
  shows "hist S = sync_order M P D (length (hist S))"
proof -
  from sync_inv_run[OF assms(4) sync_inv_start[OF assms(1,3)] assms(2)]
  have "(due S, hist S) = sync_steps M P D (length (hist S))" by (simp add: sync_inv_def)
  then show ?thesis by (metis snd_conv sync_order_def)
qed

text \<open>
  Two threads, whose first operations are due at once: thread 0 performs its operation, works
  for ten instructions and waits; then it is thread 1's turn.
\<close>

definition two_dues :: dues where
  "two_dues = [0 \<mapsto> 0, 1 \<mapsto> 1]"

definition ten_each :: program where
  "ten_each i h = Some 10"

lemma two_threads_start:
  "initialized (clocks two_threads 0)" "initialized (clocks two_threads 1)"
  "get_clock_ticks two_threads 0 = 0" "get_clock_ticks two_threads 1 = 1"
  by (simp_all add: two_threads_def running_entry_def concrete_defs get_clock_ticks_def)

lemma two_dues_ok:
  "\<forall>j v. two_dues j = Some v \<longrightarrow> on_list two_threads j \<and> initialized (clocks two_threads j) \<and>
     unat (get_clock_ticks two_threads j) \<le> v"
  using two_threads_list two_threads_start by (auto simp: two_dues_def split: if_splits)

lemma thread_0_ok: "call_ok 2 (thread 0)" "cur (thread 0) = 0"
  by (simp add: thread_ok, simp add: thread_def)

lemma thread_1_ok: "call_ok 2 (thread 1)" "cur (thread 1) = 1"
  by (simp add: thread_ok, simp add: thread_def)

lemma two_threads_ops:
  "\<exists>a b c. task_clock_entry_wait (thread 0) two_threads = Inr a \<and>
     task_clock_add_ticks (thread 0) a 10 = Inr b \<and> task_clock_entry_wait (thread 1) b = Inr c \<and>
     us_lowest_clock (ustat a 0) = 1 \<and> us_lowest_clock (ustat c 1) = 1 \<and>
     get_clock_ticks a = get_clock_ticks two_threads \<and>
     get_clock_ticks b = (get_clock_ticks two_threads)(0 := 10) \<and> get_clock_ticks c = get_clock_ticks b \<and>
     active_threads a = active_threads two_threads \<and> active_threads b = active_threads two_threads \<and>
     active_threads c = active_threads two_threads \<and>
     initialized (clocks a 0) \<and> initialized (clocks a 1) \<and> initialized (clocks b 0) \<and> initialized (clocks b 1) \<and>
     initialized (clocks c 1)"
  by (simp add: two_threads_def running_entry_def active_list_01 concrete_defs state_defs list_defs
      decision_defs task_clock_add_ticks_def task_clock_entry_wait_def fun_eq_iff)

lemma two_threads_run:
  "\<exists>S. (sync_step 2 ten_each)\<^sup>*\<^sup>* (sync_start two_threads two_dues) S \<and> hist S = [0, 1]"
proof -
  obtain a b c where ops: "task_clock_entry_wait (thread 0) two_threads = Inr a"
    "task_clock_add_ticks (thread 0) a 10 = Inr b" "task_clock_entry_wait (thread 1) b = Inr c"
    and flags: "us_lowest_clock (ustat a 0) = 1" "us_lowest_clock (ustat c 1) = 1"
    and clk: "get_clock_ticks a = get_clock_ticks two_threads"
      "get_clock_ticks b = (get_clock_ticks two_threads)(0 := 10)" "get_clock_ticks c = get_clock_ticks b"
    and la: "active_threads a = active_threads two_threads" "active_threads b = active_threads two_threads"
      "active_threads c = active_threads two_threads"
    and ini: "initialized (clocks a 0)" "initialized (clocks a 1)" "initialized (clocks b 0)"
      "initialized (clocks b 1)" "initialized (clocks c 1)"
    using two_threads_ops by blast
  note ok = thread_0_ok thread_1_ok
  have on: "on_list two_threads k = on_list s k" if "active_threads s = active_threads two_threads" for s k
    using that by (simp add: on_list_def)
  note facts = two_threads_list two_threads_list[unfolded on[OF la(1)]] two_threads_list[unfolded on[OF la(2)]]
    two_threads_list[unfolded on[OF la(3)]] flags clk ini two_threads_start
  let ?st = "sync_step 2 ten_each"
  define S0 where "S0 = sync_start two_threads two_dues"
  define S1 where "S1 = S0\<lparr>kst := a, arrived := insert 0 (arrived S0), seen := (seen S0)(0 := wakeups a 0)\<rparr>"
  define S2 where "S2 = S1\<lparr>hist := [0], due := [0 \<mapsto> 10, 1 \<mapsto> 1], arrived := arrived S1 - {0}\<rparr>"
  define S3 where "S3 = S2\<lparr>kst := b, arrived := insert 0 (arrived S2), seen := (seen S2)(0 := wakeups b 0)\<rparr>"
  define S4 where "S4 = S3\<lparr>kst := c, arrived := insert 1 (arrived S3), seen := (seen S3)(1 := wakeups c 1)\<rparr>"
  define S5 where "S5 = S4\<lparr>hist := [0, 1], due := [0 \<mapsto> 10, 1 \<mapsto> 11], arrived := arrived S4 - {1}\<rparr>"
  note sd = S0_def S1_def S2_def S3_def S4_def S5_def sync_start_def two_dues_def
  have "?st S0 S1" unfolding S1_def
    by (rule sync_step.arrive[OF asks.wait[OF ok(1,2)]])
      (use ops(1) facts in \<open>auto simp: sd in_time_def\<close>)
  moreover have "?st S1 S2" unfolding S2_def
    by (rule sync_step.sync) (use facts in \<open>auto simp: sd has_been_told_def after_sync_def ten_each_def\<close>)
  moreover have "?st S2 S3" unfolding S3_def
    by (rule sync_step.arrive[OF asks.add_ticks[OF ok(1,2)]])
      (use ops(2) facts in \<open>auto simp: sd in_time_def\<close>)
  moreover have "?st S3 S4" unfolding S4_def
    by (rule sync_step.arrive[OF asks.wait[OF ok(3,4)]])
      (use ops(3) facts in \<open>auto simp: sd in_time_def\<close>)
  moreover have "?st S4 S5" unfolding S5_def
    by (rule sync_step.sync) (use facts in \<open>auto simp: sd has_been_told_def after_sync_def ten_each_def\<close>)
  ultimately have "?st\<^sup>*\<^sup>* S0 S5" by (meson r_into_rtranclp rtranclp_trans)
  moreover have "hist S5 = [0, 1]" by (simp add: S5_def)
  ultimately show ?thesis unfolding S0_def by blast
qed

theorem sync_order_deterministic_witness:
  "sync_order 2 ten_each two_dues 2 = [0, 1]"
proof -
  obtain S where run: "(sync_step 2 ten_each)\<^sup>*\<^sup>* (sync_start two_threads two_dues) S"
    and h: "hist S = [0, 1]" using two_threads_run by blast
  from sync_order_deterministic[OF two_threads_reachable _ two_dues_ok run] h show ?thesis
    by (simp add: LISTARRAY_MAX_SIZE_def numeral_2_eq_2)
qed

end
