(* ===== verification/Sync_Progress.thy ===== *)
theory Sync_Progress
  imports Sync_Order
begin

text \<open>
  No deadlock: when all active threads have come to their operations, the one whose operation
  is next has been told so. A thread that waits is owed a notification until it is told, and
  whoever makes the last thread arrive or leave pays it.
\<close>

subsection \<open>A thread that waits is told or stays owed\<close>

definition alerted :: "nat \<Rightarrow> kstate \<Rightarrow> tid \<Rightarrow> bool" where
  "alerted n t k \<longleftrightarrow> us_lowest_clock (ustat t k) \<noteq> 0 \<or> n < wakeups t k"

lemma alerted_keeps: "alerted n t k \<Longrightarrow> keeps j t u \<Longrightarrow> k \<noteq> j \<Longrightarrow> alerted n u k"
  by (auto simp: alerted_def keeps_def intro: less_le_trans)

lemma alerted_earlier: "alerted m t k \<Longrightarrow> n \<le> m \<Longrightarrow> alerted n t k"
  by (auto simp: alerted_def)

text \<open>
  The queued work comes late if the notification it was queued for has been given meanwhile: it
  then records another lowest waiting thread and tells nobody.
\<close>

definition late_work :: "kstate \<Rightarrow> kstate \<Rightarrow> bool" where
  "late_work s t \<longleftrightarrow> (\<exists>M E. call_ok M E \<and> task_clock_notify_waiting_threads E s = Inr t) \<and>
     \<not> notification_needed s \<and> \<not> nmi_new_low s \<and> lowest_tid t \<noteq> lowest_tid s"

lemma wake_if_owed:
  assumes "wake_if (s, w) = Inr t"
  shows "owed t k = owed s k" "waiting (clocks t k) = waiting (clocks s k)"
    "k = w \<Longrightarrow> 0 \<le> w \<Longrightarrow> lowest_tid s = w \<Longrightarrow> alerted (wakeups s k) t k"
proof -
  show "owed t k = owed s k" "waiting (clocks t k) = waiting (clocks s k)"
    using same_sched_wake_if[OF assms] by (simp_all add: owed_def same_sched_def)
  show "k = w \<Longrightarrow> 0 \<le> w \<Longrightarrow> lowest_tid s = w \<Longrightarrow> alerted (wakeups s k) t k"
    using wake_if_tells(3)[OF assms] by (auto simp: alerted_def)
qed

lemma work_owed:
  assumes ok: "call_ok M E" and nt: "task_clock_notify_waiting_threads E s = Inr t"
    and punctual: "\<not> late_work s t" and k: "waiting (clocks s k)" "owed s k"
  shows "waiting (clocks t k) \<and> (owed t k \<or> alerted (wakeups s k) t k)"
proof -
  from nt obtain l where w: "wake_if
       (if l \<ge> 0 \<and> thread_is_waiting s l
        then if notification_needed (set_new_low s l) \<or> nmi_new_low (set_new_low s l)
             then ((set_new_low s l)\<lparr>nmi_new_low := False, notification_needed := False\<rparr>,
                   lowest_tid ((set_new_low s l)\<lparr>nmi_new_low := False, notification_needed := False\<rparr>))
             else (set_new_low s l, -1)
        else (s, -1)) = Inr t"
    unfolding task_clock_notify_waiting_threads_def Let_def bindE_eq_Inr by blast
  have low: "notification_needed s \<or> nmi_new_low s \<or> lowest_tid t = lowest_tid s"
    using punctual nt ok by (auto simp: late_work_def)
  from w obtain u m where u: "wake_if (u, m) = Inr t" "clocks u = clocks s" "wakeups u = wakeups s"
    and c: "0 \<le> m \<and> lowest_tid u = m \<or>
      m = -1 \<and> notification_needed u = notification_needed s \<and>
        (lowest_tid u = lowest_tid s \<or> \<not> notification_needed s \<and> \<not> nmi_new_low s)"
    by (auto simp: set_new_low_def split: if_splits)
  have "lowest_tid t = lowest_tid u" using same_sched_wake_if[OF u(1)] by (simp add: same_sched_def)
  with c low k(2) have "owed u k \<or> k = m \<and> 0 \<le> m \<and> lowest_tid u = m"
    by (auto simp: owed_def)
  with wake_if_owed[OF u(1), of k] u(2,3) k(1) show ?thesis by (auto simp: alerted_def)
qed

lemma decision_owed:
  assumes rep: "la_rep (active_threads u) xs" and ok: "call_ok M E"
    and at: "cur E \<in> set xs \<or> inactive (clocks u (cur E))"
    and det: "determine_lowest_and_notify_or_wait E u = Inr (v, w)"
    and v': "settles (cur E) v v'" and w: "wake_if (v', w) = Inr t"
    and k: "k \<in> set xs" "k \<noteq> cur E" "waiting (clocks u k)" "owed u k"
  shows "waiting (clocks t k) \<and> (owed t k \<or> alerted (wakeups u k) t k)"
proof -
  note d = determine_calm(1)[OF det] and wk = wake_if_owed[OF w, of k]
  have "waiting (clocks t k)"
    using d v' k(2,3) wk(2) by (simp add: calm_def settles_def keeps_def)
  moreover have "owed v' k" if "owed v k" using that v' by (auto simp: owed_def settles_def)
  moreover have "alerted (wakeups u k) t k" if "w = k"
  proof -
    have "0 \<le> w" using that k(1) la_rep_nonneg[OF rep] by auto
    moreover have "\<not> current_is_only_active_thread E u" using not_alone_beside[OF rep k(1,2) at] .
    then have "lowest_tid v = w"
      using decision_gives_turn(2)[OF rep ok _ det] \<open>0 \<le> w\<close> by auto
    ultimately have "alerted (wakeups v' k) t k" using wk(3) that v' by (simp add: settles_def)
    then show ?thesis using v' d by (auto simp: alerted_def settles_def calm_def)
  qed
  ultimately show ?thesis using determine_owed[OF rep ok det at k] wk(1) by auto
qed

lemma decides_owed:
  assumes dc: "decides E s t" and ok: "call_ok M E" and rep: "la_rep (active_threads s) xs"
    and x: "cur E \<in> set xs" "k \<in> set xs" and k: "k \<noteq> cur E" "waiting (clocks s k)" "owed s k"
  shows "waiting (clocks t k) \<and> (owed t k \<or> alerted (wakeups s k) t k)"
proof -
  from dc obtain u v v' w where u: "calm (cur E) (cur E) s u" "owing (cur E) s u"
    and d: "determine_lowest_and_notify_or_wait E u = Inr (v, w)" "settles (cur E) v v'" "wake_if (v', w) = Inr t"
    by (auto simp: decides_def)
  have rep': "la_rep (active_threads u) xs" using rep keeps_list[OF calm_keeps[OF u(1)]] by simp
  have "waiting (clocks u k)" "owed u k" "wakeups u = wakeups s"
    using u k x by (auto simp: calm_def keeps_def owing_def on_list_rep[OF rep])
  with decision_owed[OF rep' ok _ d, of k] x k(1) show ?thesis by auto
qed

lemma runs_owed:
  assumes run: "runs M j s t" and inv: "tc_inv M s" and M: "M \<le> LISTARRAY_MAX_SIZE"
    and on: "on_list s j" "on_list s k" and punctual: "\<not> late_work s t"
    and k: "k \<noteq> j" "waiting (clocks s k)" "owed s k"
  shows "waiting (clocks t k) \<and> (owed t k \<or> alerted (wakeups s k) t k)"
proof -
  from inv obtain xs where rep: "la_rep (active_threads s) xs" by (rule tc_invE)
  have x: "j \<in> set xs" "k \<in> set xs" using on by (simp_all add: on_list_rep[OF rep])
  from run rep show ?thesis
  proof (cases rule: runs_groups)
    case (decide E)
    then show ?thesis using decides_owed[OF decide(3,1) rep] x k by simp
  next
    case quiet
    then show ?thesis using k on by (auto simp: calm_def keeps_def owing_def)
  next
    case (work E)
    then show ?thesis using work_owed[OF work punctual k(2,3)] by simp
  next
    case (leave E u v w)
    note l = leaving_has_turn[OF rep M call_okD(1)[OF leave(1)], unfolded leave(2), OF leave(3)]
    have st: "settles (cur E) v (upd_clock j (\<lambda>e. e\<lparr>waiting := False\<rparr>) v)"
      by (simp add: leave(2) settles_upd)
    have "k \<in> set (remove1 j xs)" using x k(1) by (simp add: in_set_remove1)
    moreover have "waiting (clocks u k)" "owed u k" "wakeups u k = wakeups s k"
      using l(6)[OF k(1)] k by (simp_all add: mark_as_inactive_same[OF leave(3)])
    ultimately show ?thesis
      using decision_owed[OF l(1) leave(1) _ leave(4) st leave(5), of k] l(4) leave(2) k(1)
      by (auto simp: alerted_def)
  next
    case forget
    then show ?thesis using k by (simp add: owed_def)
  qed
qed

subsection \<open>A thread that asks\<close>

lemma asksE:
  assumes ask: "asks M j s t" and inv: "tc_inv M s" and on: "on_list s j"
  obtains E xs u v v' w where "call_ok M E" "cur E = j" "la_rep (active_threads u) xs" "j \<in> set xs"
    "\<not> inactive (clocks u j)" "calm j j s u" "owing j s u" "determine_lowest_and_notify_or_wait E u = Inr (v, w)"
    "settles j v v'" "waiting (clocks v' j) = waiting (clocks v j)" "wake_if (v', w) = Inr t"
proof -
  from inv obtain xs where rep: "la_rep (active_threads s) xs"
    and act: "\<forall>k\<in>set xs. valid_id M k \<and> \<not> inactive (clocks s k)" by (rule tc_invE)
  have jx: "j \<in> set xs" using on by (simp add: on_list_rep[OF rep])
  from asks_looks[OF ask rep] obtain E u v v' w where E: "call_ok M E" "cur E = j"
    and p: "calm j j s u" "owing j s u" "determine_lowest_and_notify_or_wait E u = Inr (v, w)"
      "settles j v v'" "waiting (clocks v' j) = waiting (clocks v j)" "wake_if (v', w) = Inr t"
    by (auto simp: looks_def)
  have "la_rep (active_threads u) xs" using rep keeps_list[OF calm_keeps[OF p(1)]] by simp
  moreover have "\<not> inactive (clocks u j)" using p(1) act jx by (auto simp: calm_def keeps_def)
  ultimately show ?thesis using E p jx that by blast
qed

lemma asks_owed:
  assumes "asks M j s t" "tc_inv M s" "on_list s j"
  shows "us_lowest_clock (ustat t j) \<noteq> 0 \<or> waiting (clocks t j) \<and> owed t j"
  using assms
proof (cases rule: asksE)
  case (1 E xs u v v' w)
  obtain vd where vd: "verdict_ok E xs u v w vd"
    and st: "if is_named vd then named_state E v else waiting_state E u v"
    using determine_verdict[OF 1(3) call_okD(3,2)[OF 1(1)] 1(8)] by blast
  show ?thesis
  proof (cases "is_named vd")
    case True
    with st 1(2,9) have "us_lowest_clock (ustat v' j) \<noteq> 0" by (simp add: named_state_def settles_def)
    with wake_if_tells(2)[OF 1(11)] show ?thesis by blast
  next
    case False
    with st vd have "waiting (clocks v j)" "lowest_tid v \<noteq> j"
      using 1(2) by (cases vd; auto simp: verdict_ok_def waiting_state_def)+
    with 1(9,10) wake_if_owed(1,2)[OF 1(11), of j] show ?thesis by (simp add: owed_def settles_def)
  qed
qed

text \<open>Going back over a change that moves no clock, the turn is where it was.\<close>

lemma has_turn_exists:
  assumes rep: "la_rep (active_threads s) xs" and k: "k \<in> set xs" "candidate s k"
  obtains i where "has_turn s i"
proof -
  let ?A = "{i \<in> set xs. candidate s i}"
  from k have "Min (turn_key s ` ?A) \<in> turn_key s ` ?A" by (intro Min_in) auto
  then obtain i where "i \<in> ?A" "turn_key s i = Min (turn_key s ` ?A)" by auto
  then have "least_of s ?A i" using least_of_Min[of ?A s i] by auto
  with that show thesis by (simp add: has_turn_rep[OF rep])
qed

lemma keeps_has_turn_back:
  assumes kp: "keeps j s t" and rep: "la_rep (active_threads s) xs"
    and act: "j \<in> set xs \<Longrightarrow> \<not> inactive (clocks s j)" and turn: "has_turn t h"
    and clk: "get_clock_ticks t j = get_clock_ticks s j"
  shows "has_turn s h"
proof -
  have rep': "la_rep (active_threads t) xs" using rep keeps_list[OF kp] by simp
  from turn have h: "h \<in> set xs" "candidate t h" by (auto simp: has_turn_rep[OF rep'] least_of_def)
  with keeps_candidate[OF kp, of h] act have "candidate s h" by auto
  with rep h(1) obtain i where i: "has_turn s i" by (rule has_turn_exists)
  have "has_turn t i" by (rule keeps_has_turn[OF kp rep act i]) (simp_all add: clk)
  with has_turn_unique[OF turn] i show ?thesis by simp
qed

text \<open>The call that decides tells the thread with the turn, unless it runs.\<close>

lemma decision_alerts:
  assumes rep: "la_rep (active_threads u) xs" and ok: "call_ok M E"
    and at: "cur E \<in> set xs \<and> \<not> inactive (clocks u (cur E)) \<or> cur E \<notin> set xs \<and> inactive (clocks u (cur E))"
    and det: "determine_lowest_and_notify_or_wait E u = Inr (v, w)"
    and v': "settles (cur E) v v'" and w: "wake_if (v', w) = Inr t" and turn: "has_turn t h"
    and h: "h \<noteq> cur E \<Longrightarrow> alerted n u h \<or> waiting (clocks u h) \<and> owed u h"
    and up: "n \<le> wakeups u h"
  shows "if h = cur E then us_lowest_clock (ustat t h) \<noteq> 0 else alerted n t h"
proof -
  note d = determine_calm[OF det] and wk = wake_if_keeps[OF w]
  have kp: "keeps (cur E) u t"
    using calm_keeps[OF d(1)] v' wk(1)[of "cur E"] by (auto simp: settles_def intro: keeps_trans)
  have "get_clock_ticks t (cur E) = get_clock_ticks u (cur E)"
    using d(2)[of "cur E"] v' wk(2)[of "cur E"] by (simp add: settles_def)
  with keeps_has_turn_back[OF kp rep _ turn] at have "has_turn u h" by blast
  note tells = decision_tells[OF rep ok _ this det v' w]
  show ?thesis
  proof (cases "h = cur E")
    case True
    with tells(1) at show ?thesis by auto
  next
    case False
    with h consider "alerted n u h" | "waiting (clocks u h)" "owed u h" by blast
    then show ?thesis
    proof cases
      case 1
      with alerted_keeps[OF _ kp False] False show ?thesis by simp
    next
      case 2
      with tells(2) False at have "alerted (wakeups u h) t h" by (auto simp: alerted_def)
      with alerted_earlier[OF _ up] False show ?thesis by simp
    qed
  qed
qed

lemma asks_alerts:
  assumes ask: "asks M j s t" and inv: "tc_inv M s" and on: "on_list s j" "on_list s h"
    and turn: "has_turn t h" and h: "h \<noteq> j \<Longrightarrow> alerted n s h \<or> waiting (clocks s h) \<and> owed s h"
    and up: "n \<le> wakeups s h"
  shows "if h = j then us_lowest_clock (ustat t h) \<noteq> 0 else alerted n t h"
  using ask inv on(1)
proof (cases rule: asksE)
  case (1 E xs u v v' w)
  have w: "wakeups u = wakeups s" using 1(6) by (simp add: calm_def)
  have h': "alerted n u h \<or> waiting (clocks u h) \<and> owed u h" if "h \<noteq> j"
    using h[OF that] that on 1(6,7) w by (auto simp: alerted_def owing_def calm_def keeps_def)
  show ?thesis
    using decision_alerts[OF 1(3,1) _ 1(8) _ 1(11) turn, of n] 1 h' up w by auto
qed

text \<open>A thread that halts leaves behind a thread with the turn that has been told.\<close>

lemma leaving_alerts:
  assumes run: "runs M j s t" and inv: "tc_inv M s" and M: "M \<le> LISTARRAY_MAX_SIZE"
    and on: "on_list s j" "\<not> on_list t j" and turn: "has_turn t h"
    and h: "alerted n s h \<or> waiting (clocks s h) \<and> owed s h" and up: "n \<le> wakeups s h"
  shows "alerted n t h"
proof -
  from inv obtain xs where rep: "la_rep (active_threads s) xs" by (rule tc_invE)
  have hj: "h \<noteq> j" using has_turn_on_list[OF turn] on(2) by auto
  have stay: "\<not> keeps j s t" using on by (auto simp: on_list_def dest: keeps_list)
  from run rep show ?thesis
  proof (cases rule: runs_groups)
    case (leave E u v w)
    note l = leaving_has_turn[OF rep M call_okD(1)[OF leave(1)], unfolded leave(2), OF leave(3)]
    have st: "settles (cur E) v (upd_clock j (\<lambda>e. e\<lparr>waiting := False\<rparr>) v)"
      by (simp add: leave(2) settles_upd)
    note same = mark_as_inactive_same[OF leave(3)]
    have "h \<noteq> cur E" using hj leave(2) by simp
    moreover have "alerted n u h \<or> waiting (clocks u h) \<and> owed u h"
      using h l(6)[OF hj] by (simp add: same alerted_def)
    ultimately show ?thesis
      using decision_alerts[OF l(1) leave(1) _ leave(4) st leave(5) turn, of n] l(4) leave(2) up
        la_rep_distinct[OF rep] by (simp add: same)
  next
    case (decide E)
    with stay decides_keeps[OF decide(3)] show ?thesis by simp
  next
    case quiet
    with stay show ?thesis by (auto dest: calm_keeps)
  next
    case (work E)
    with stay notify_effect(1)[OF rep work] show ?thesis by simp
  next
    case forget
    with on show ?thesis by (simp add: on_list_def)
  qed
qed

subsection \<open>What happens to a thread that waits\<close>

text \<open>
  While a thread waits its processor takes interrupts: the queued work, a last overflow or trap,
  and what the hardware does by itself.
\<close>

inductive idles :: "int \<Rightarrow> tid \<Rightarrow> kstate \<Rightarrow> kstate \<Rightarrow> bool" for M j where
  notify: "call_ok M E \<Longrightarrow> cur E = j \<Longrightarrow> task_clock_notify_waiting_threads E s = Inr t \<Longrightarrow> idles M j s t"
| overflow: "cur E = j \<Longrightarrow> task_clock_overflow_handler E s flags = Inr (t, flags') \<Longrightarrow> idles M j s t"
| update_period: "cur E = j \<Longrightarrow> task_clock_entry_overflow_update_period E s = Inr t \<Longrightarrow> idles M j s t"
| single_step: "cur E = j \<Longrightarrow> task_clock_entry_is_singlestep E s flags = (t, flags', r) \<Longrightarrow> idles M j s t"
| machine: "same_sched s t \<Longrightarrow> \<forall>k. ticks (clocks t k) = ticks (clocks s k) \<and>
    us_lowest_clock (ustat t k) = us_lowest_clock (ustat s k) \<Longrightarrow> effects t = effects s \<Longrightarrow> idles M j s t"

lemma idles_runs: "idles M j s t \<Longrightarrow> runs M j s t"
  by (induction rule: idles.induct) (auto intro: runs.intros)

lemma idle_single_step:
  assumes "task_clock_entry_is_singlestep E s flags = (t, flags', r)"
  shows "us_lowest_clock (ustat t k) = us_lowest_clock (ustat s k)"
  using assms
  by (auto simp: task_clock_entry_is_singlestep_def on_single_step_def tc_macro Let_def split: if_splits)

lemma idle_update_clock:
  "us_lowest_clock (ustat (logical_clock_update_clock_ticks E s j) k) = us_lowest_clock (ustat s k)"
  by (simp add: logical_clock_ops tc_macro inc_clock_ticks_def inc_chunk_ticks_def begin_bounded_memory_fence_def
      upd_event_def upd_hw_def)

lemma idle_update_overflow:
  "logical_clock_update_overflow_period E s j = Inr t \<Longrightarrow> ustat t = ustat s"
  by (auto simp: logical_clock_update_overflow_period_def logical_clock_no_ticks_def
      ic_update_overflow_period_def upd_event_def upd_hw_def split: if_splits)

lemma idle_update_period:
  assumes "task_clock_entry_overflow_update_period E s = Inr t"
  shows "us_lowest_clock (ustat t k) = us_lowest_clock (ustat s k)"
  using assms
  by (auto simp: task_clock_entry_overflow_update_period_def idle_update_clock split: if_splits
      dest!: idle_update_overflow)

text \<open>Nobody's alert is taken back, but by a decision of the thread itself.\<close>

lemma runs_keep_alerts:
  assumes run: "runs M j s t" and inv: "tc_inv M s" and M: "M \<le> LISTARRAY_MAX_SIZE"
  shows "wakeups s k \<le> wakeups t k" "k \<noteq> j \<Longrightarrow> alerted n s k \<Longrightarrow> alerted n t k"
proof -
  from inv obtain xs where rep: "la_rep (active_threads s) xs" by (rule tc_invE)
  have kept: "wakeups s k \<le> wakeups t k \<and> (k \<noteq> j \<longrightarrow> alerted n s k \<longrightarrow> alerted n t k)" if "keeps j u t"
    "wakeups u = wakeups s" "ustat u = ustat s" for u
    using that alerted_keeps[OF _ that(1), of n k] by (auto simp: keeps_def alerted_def)
  have "wakeups s k \<le> wakeups t k \<and> (k \<noteq> j \<longrightarrow> alerted n s k \<longrightarrow> alerted n t k)"
    using run rep
  proof (cases rule: runs_groups)
    case (decide E)
    with decides_keeps[OF decide(3)] show ?thesis by (intro kept[of s]) simp_all
  next
    case quiet
    then show ?thesis by (intro kept[of s]) (auto dest: calm_keeps)
  next
    case (work E)
    with notify_effect(1)[OF rep work] show ?thesis by (intro kept[of s]) simp_all
  next
    case (leave E u v w)
    have "keeps j u t" using leaving_keeps[of E, unfolded leave(2)] leave(4,5) by blast
    then show ?thesis by (rule kept) (fact mark_as_inactive_same[OF leave(3)])+
  next
    case forget
    then show ?thesis by (simp add: alerted_def)
  qed
  then show "wakeups s k \<le> wakeups t k" "k \<noteq> j \<Longrightarrow> alerted n s k \<Longrightarrow> alerted n t k" by blast+
qed

lemma idles_effect:
  assumes idle: "idles M j s t" and inv: "tc_inv M s" and M: "M \<le> LISTARRAY_MAX_SIZE"
    and punctual: "\<not> late_work s t"
  shows "keeps j s t" "alerted n s k \<Longrightarrow> alerted n t k"
    "waiting (clocks s j) \<Longrightarrow> owed s j \<Longrightarrow> waiting (clocks t j) \<and> (owed t j \<or> alerted (wakeups s j) t j)"
proof -
  from inv obtain xs where rep: "la_rep (active_threads s) xs" by (rule tc_invE)
  have up: "wakeups s k \<le> wakeups t k" by (rule runs_keep_alerts(1)[OF idles_runs[OF idle] inv M])
  have "keeps j s t \<and> (us_lowest_clock (ustat s k) \<noteq> 0 \<longrightarrow> us_lowest_clock (ustat t k) \<noteq> 0) \<and>
     (waiting (clocks s j) \<longrightarrow> owed s j \<longrightarrow> waiting (clocks t j) \<and> (owed t j \<or> alerted (wakeups s j) t j))"
    using idle
  proof cases
    case (notify E)
    from notify_effect(1)[OF rep notify(1,3), of "k + 1"] notify_effect(1)[OF rep notify(1,3), of j]
      work_owed[OF notify(1,3) punctual]
    show ?thesis by (auto simp: keeps_def)
  next
    case (overflow E flags flags')
    from same_overflow[OF overflow(2)] calm_keeps[OF calm_overflow[OF overflow(2), of j j]]
    show ?thesis by (simp add: owed_def)
  next
    case (update_period E)
    from same_sched_update_period[OF update_period(2)] idle_update_period[OF update_period(2)]
      calm_keeps[OF calm_update_period[OF update_period(2), of j]] update_period(1)
    show ?thesis by (simp add: owed_def same_sched_def)
  next
    case (single_step E flags flags' r)
    from same_sched_single_step[OF single_step(2)] idle_single_step[OF single_step(2)]
      calm_keeps[OF calm_single_step[OF single_step(2), of j]] single_step(1)
    show ?thesis by (simp add: owed_def same_sched_def)
  next
    case machine
    from calm_keeps[OF calm_machine[OF machine, of j j]] machine show ?thesis
      by (simp add: owed_def same_sched_def)
  qed
  with up show "keeps j s t" "alerted n s k \<Longrightarrow> alerted n t k"
    "waiting (clocks s j) \<Longrightarrow> owed s j \<Longrightarrow> waiting (clocks t j) \<and> (owed t j \<or> alerted (wakeups s j) t j)"
    by (auto simp: alerted_def)
qed

subsection \<open>Runs without a late notification\<close>

text \<open>
  The steps of \<open>sync_step\<close>, where a thread that has arrived does nothing but ask again and take
  interrupts, no thread withdraws its set-up, and no queued work comes late.
\<close>

inductive wait_step :: "int \<Rightarrow> program \<Rightarrow> sync_state \<Rightarrow> sync_state \<Rightarrow> bool" for M P where
  call: "runs M j (kst S) t \<Longrightarrow> in_time S j t \<Longrightarrow> j \<notin> arrived S \<Longrightarrow> initialized (clocks t j) \<Longrightarrow>
    \<not> late_work (kst S) t \<Longrightarrow> wait_step M P S (S\<lparr>kst := t\<rparr>)"
| arrive: "asks M j (kst S) t \<Longrightarrow> in_time S j t \<Longrightarrow> due S j = Some (unat (get_clock_ticks t j)) \<Longrightarrow>
    wait_step M P S (S\<lparr>kst := t, arrived := insert j (arrived S), seen := (seen S)(j := wakeups t j)\<rparr>)"
| idle: "idles M j (kst S) t \<Longrightarrow> in_time S j t \<Longrightarrow> j \<in> arrived S \<Longrightarrow> \<not> late_work (kst S) t \<Longrightarrow>
    wait_step M P S (S\<lparr>kst := t\<rparr>)"
| sync: "i \<in> arrived S \<Longrightarrow> has_been_told S i \<Longrightarrow> after_sync P i (due S, hist S) = (D, h) \<Longrightarrow>
    wait_step M P S (S\<lparr>hist := h, due := D, arrived := arrived S - {i}\<rparr>)"

lemma wait_step_sync_step: "wait_step M P S S' \<Longrightarrow> sync_step M P S S'"
  by (induction rule: wait_step.induct) (auto intro: sync_step.intros idles_runs)

definition all_arrived :: "sync_state \<Rightarrow> bool" where
  "all_arrived S \<longleftrightarrow> (\<forall>i. on_list (kst S) i \<longrightarrow> initialized (clocks (kst S) i) \<longrightarrow> i \<in> arrived S)"

definition heeded :: "sync_state \<Rightarrow> tid \<Rightarrow> bool" where
  "heeded S i \<longleftrightarrow> seen S i \<le> wakeups (kst S) i \<and>
     (has_been_told S i \<or> waiting (clocks (kst S) i) \<and> owed (kst S) i)"

definition wait_inv :: "sync_state \<Rightarrow> bool" where
  "wait_inv S \<longleftrightarrow> (\<forall>i\<in>arrived S. heeded S i) \<and>
     (all_arrived S \<longrightarrow> (\<forall>h. has_turn (kst S) h \<longrightarrow> has_been_told S h))"

lemma has_been_told_alerted: "has_been_told S i = alerted (seen S i) (kst S) i"
  by (simp add: has_been_told_def alerted_def)

lemma sync_invD:
  assumes "sync_inv M P D S" "M \<le> LISTARRAY_MAX_SIZE"
  shows "tc_inv M (kst S)" "i \<in> arrived S \<Longrightarrow> on_list (kst S) i \<and> initialized (clocks (kst S) i)"
  using assms tc_reach_inv by (auto simp: sync_inv_def)

lemma turn_initialized: "has_turn s h \<Longrightarrow> initialized (clocks s h)"
  by (auto simp: has_turn_def least_of_def candidate_def)

lemma turn_arrived: "all_arrived S \<Longrightarrow> has_turn (kst S) h \<Longrightarrow> h \<in> arrived S"
  by (simp add: all_arrived_def has_turn_on_list turn_initialized)

text \<open>A thread that waits is heeded after a call of another.\<close>

lemma heeded_beside:
  assumes "heeded S i" "wakeups (kst S) i \<le> wakeups t i"
    "alerted (seen S i) (kst S) i \<Longrightarrow> alerted (seen S i) t i"
    "waiting (clocks (kst S) i) \<Longrightarrow> owed (kst S) i \<Longrightarrow>
       waiting (clocks t i) \<and> (owed t i \<or> alerted (wakeups (kst S) i) t i)"
    "kst S' = t" "seen S' i = seen S i"
  shows "heeded S' i"
  using assms alerted_earlier[of "wakeups (kst S) i" t i "seen S i"]
  by (auto simp: heeded_def has_been_told_alerted)

lemma wait_inv_call:
  assumes inv: "sync_inv M P D S" and M: "M \<le> LISTARRAY_MAX_SIZE" and wi: "wait_inv S"
    and run: "runs M j (kst S) t" and time: "in_time S j t" and j: "j \<notin> arrived S" "initialized (clocks t j)"
    and punctual: "\<not> late_work (kst S) t"
  shows "wait_inv (S\<lparr>kst := t\<rparr>)"
proof -
  let ?s = "kst S" and ?S = "S\<lparr>kst := t\<rparr>"
  note tc = sync_invD[OF inv M] and keep = runs_keep_alerts[OF run sync_invD(1)[OF inv M] M]
  have on: "on_list ?s j" using time by (simp add: in_time_def)
  have heed: "heeded ?S i" if i: "i \<in> arrived S" for i
  proof (rule heeded_beside)
    show "heeded S i" using wi i by (simp add: wait_inv_def)
    have ij: "i \<noteq> j" using i j by auto
    show "alerted (seen S i) ?s i \<Longrightarrow> alerted (seen S i) t i" using keep(2) ij by blast
    show "waiting (clocks ?s i) \<Longrightarrow> owed ?s i \<Longrightarrow>
       waiting (clocks t i) \<and> (owed t i \<or> alerted (wakeups ?s i) t i)"
      using runs_owed[OF run tc(1) M on _ punctual ij] tc(2)[OF i] by blast
  qed (simp_all add: keep(1))
  moreover have "has_been_told ?S h" if all: "all_arrived ?S" and turn: "has_turn t h" for h
  proof -
    have "h \<in> arrived S" using turn_arrived[OF all] turn by simp
    moreover have "\<not> on_list t j" using all j by (auto simp: all_arrived_def)
    ultimately have "alerted (seen S h) t h"
      using leaving_alerts[OF run tc(1) M on _ turn, of "seen S h"] wi
      by (auto simp: wait_inv_def heeded_def has_been_told_alerted)
    then show ?thesis by (simp add: has_been_told_alerted)
  qed
  ultimately show ?thesis by (simp add: wait_inv_def)
qed

lemma wait_inv_arrive:
  assumes inv: "sync_inv M P D S" and M: "M \<le> LISTARRAY_MAX_SIZE" and wi: "wait_inv S"
    and ask: "asks M j (kst S) t" and time: "in_time S j t"
  shows "wait_inv (S\<lparr>kst := t, arrived := insert j (arrived S), seen := (seen S)(j := wakeups t j)\<rparr>)"
    (is "wait_inv ?S")
proof -
  let ?s = "kst S"
  note tc = sync_invD[OF inv M]
  from tc(1) obtain xs where rep: "la_rep (active_threads ?s) xs" by (rule tc_invE)
  have on: "on_list ?s j" using time by (simp add: in_time_def)
  from asks_looks[OF ask rep] obtain E where E: "call_ok M E" "cur E = j" "decides E ?s t"
    using looks_decides by blast
  note kp = decides_keeps[OF E(3), unfolded E(2)]
  have heed: "heeded ?S i" if i: "i \<in> insert j (arrived S)" for i
  proof (cases "i = j")
    case True
    with asks_owed[OF ask tc(1) on] show ?thesis by (auto simp: heeded_def has_been_told_def)
  next
    case False
    with i have i': "i \<in> arrived S" by simp
    show ?thesis
    proof (rule heeded_beside)
      show "heeded S i" using wi i' by (simp add: wait_inv_def)
      show "wakeups ?s i \<le> wakeups t i" using kp by (simp add: keeps_def)
      show "alerted (seen S i) ?s i \<Longrightarrow> alerted (seen S i) t i" by (rule alerted_keeps[OF _ kp False])
      show "waiting (clocks ?s i) \<Longrightarrow> owed ?s i \<Longrightarrow>
         waiting (clocks t i) \<and> (owed t i \<or> alerted (wakeups ?s i) t i)"
        using decides_owed[OF E(3,1) rep] E(2) False on tc(2)[OF i'] by (simp add: on_list_rep[OF rep])
    qed (simp_all add: False)
  qed
  moreover have "has_been_told ?S h" if all: "all_arrived ?S" and turn: "has_turn t h" for h
  proof -
    have h: "h \<in> insert j (arrived S)" using turn_arrived[OF all] turn by simp
    have "on_list ?s h"
      using has_turn_on_list[OF turn] keeps_list[OF kp] by (simp add: on_list_def)
    moreover have "h \<noteq> j \<Longrightarrow> heeded S h" using wi h by (simp add: wait_inv_def)
    ultimately show ?thesis
      using asks_alerts[OF ask tc(1) on _ turn, of "if h = j then 0 else seen S h"]
      by (auto simp: heeded_def has_been_told_alerted alerted_def split: if_splits)
  qed
  ultimately show ?thesis by (simp add: wait_inv_def)
qed

lemma wait_inv_idle:
  assumes inv: "sync_inv M P D S" and M: "M \<le> LISTARRAY_MAX_SIZE" and wi: "wait_inv S"
    and idle: "idles M j (kst S) t" and time: "in_time S j t" and j: "j \<in> arrived S"
    and punctual: "\<not> late_work (kst S) t"
  shows "wait_inv (S\<lparr>kst := t\<rparr>)"
proof -
  let ?s = "kst S" and ?S = "S\<lparr>kst := t\<rparr>"
  note tc = sync_invD[OF inv M] and run = idles_runs[OF idle]
  note e = idles_effect[OF idle tc(1) M punctual]
  have on: "on_list ?s j" and clk: "get_clock_ticks t j = get_clock_ticks ?s j"
    using time j by (auto simp: in_time_def)
  have heed: "heeded ?S i" if i: "i \<in> arrived S" for i
  proof (rule heeded_beside)
    show "heeded S i" using wi i by (simp add: wait_inv_def)
    show "wakeups ?s i \<le> wakeups t i" by (rule runs_keep_alerts(1)[OF run tc(1) M])
    show "waiting (clocks ?s i) \<Longrightarrow> owed ?s i \<Longrightarrow>
       waiting (clocks t i) \<and> (owed t i \<or> alerted (wakeups ?s i) t i)"
      using runs_owed[OF run tc(1) M on _ punctual] tc(2)[OF i] e(3) by (cases "i = j") simp_all
  qed (simp_all add: e(2))
  moreover have "has_been_told ?S h" if all: "all_arrived ?S" and turn: "has_turn t h" for h
  proof -
    from tc(1) obtain xs where rep: "la_rep (active_threads ?s) xs"
      and act: "\<forall>k\<in>set xs. valid_id M k \<and> \<not> inactive (clocks ?s k)" by (rule tc_invE)
    have "all_arrived S" using all e(1) by (simp add: all_arrived_def on_list_def keeps_def)
    moreover have "has_turn ?s h" by (rule keeps_has_turn_back[OF e(1) rep _ turn clk]) (use act in blast)
    ultimately show ?thesis using wi e(2) by (simp add: wait_inv_def has_been_told_alerted)
  qed
  ultimately show ?thesis by (simp add: wait_inv_def)
qed

lemma wait_inv_sync:
  assumes inv: "sync_inv M P D S" and M: "M \<le> LISTARRAY_MAX_SIZE" and wi: "wait_inv S" and i: "i \<in> arrived S"
  shows "wait_inv (S\<lparr>hist := h, due := D', arrived := arrived S - {i}\<rparr>)" (is "wait_inv ?S")
proof -
  have "\<not> all_arrived ?S" using sync_invD(2)[OF inv M i] by (auto simp: all_arrived_def)
  moreover have "heeded ?S = heeded S" by (simp add: heeded_def has_been_told_def fun_eq_iff)
  ultimately show ?thesis using wi by (simp add: wait_inv_def)
qed

lemma wait_inv_run:
  assumes "(wait_step M P)\<^sup>*\<^sup>* S S'" "sync_inv M P D S" "wait_inv S" "M \<le> LISTARRAY_MAX_SIZE"
  shows "sync_inv M P D S' \<and> wait_inv S'"
  using assms(1)
proof (induction rule: rtranclp_induct)
  case base
  show ?case using assms(2,3) by simp
next
  case (step S S')
  then have inv: "sync_inv M P D S" "wait_inv S" by simp_all
  have "wait_inv S'" using step.hyps(2)
    by cases (use inv assms(4) in \<open>simp_all add: wait_inv_call wait_inv_arrive wait_inv_idle wait_inv_sync\<close>)
  moreover have "sync_inv M P D S'"
    using sync_inv_run[OF r_into_rtranclp[of "sync_step M P", OF wait_step_sync_step[OF step.hyps(2)]] inv(1) assms(4)] .
  ultimately show ?case by simp
qed

subsection \<open>The property\<close>

text \<open>
  C3: when in such a run all active threads that are set up have come to their synchronisation
  operations, the module has told one of them, by its page or by waking it, that it is the
  lowest, and this is the thread whose operation is the next one of the program: the run goes on.
\<close>

theorem no_deadlock:
  assumes "tc_reach M s" "M \<le> LISTARRAY_MAX_SIZE"
    and "\<forall>j v. D j = Some v \<longrightarrow> on_list s j \<and> initialized (clocks s j) \<and> unat (get_clock_ticks s j) \<le> v"
    and "(wait_step M P)\<^sup>*\<^sup>* (sync_start s D) S"
    and "on_list (kst S) j" "initialized (clocks (kst S) j)"
    and "\<forall>i. on_list (kst S) i \<and> initialized (clocks (kst S) i) \<longrightarrow> i \<in> arrived S"
  shows "\<exists>i\<in>arrived S. has_been_told S i \<and> next_due M (due S) = i"
proof -
  have "wait_inv (sync_start s D)"
    by (auto simp: wait_inv_def sync_start_def all_arrived_def dest: has_turn_on_list turn_initialized)
  from wait_inv_run[OF assms(4) sync_inv_start[OF assms(1,3)] this assms(2)]
  have inv: "sync_inv M P D S" "wait_inv S" by simp_all
  from sync_invD(1)[OF inv(1) assms(2)] obtain xs where rep: "la_rep (active_threads (kst S)) xs"
    and act: "\<forall>k\<in>set xs. valid_id M k \<and> \<not> inactive (clocks (kst S) k)" by (rule tc_invE)
  have "j \<in> set xs" using assms(5) by (simp add: on_list_rep[OF rep])
  with act assms(6) obtain i where i: "has_turn (kst S) i"
    using has_turn_exists[OF rep, of j] by (auto simp: candidate_def)
  have all: "all_arrived S" using assms(7) by (simp add: all_arrived_def)
  have "i \<in> arrived S" using turn_arrived[OF all i] .
  moreover have "has_been_told S i" using inv(2) all i by (simp add: wait_inv_def)
  ultimately show ?thesis using turn_is_next_due(1)[OF inv(1) assms(2) _ i] by blast
qed

text \<open>Thread 1 comes to its operation first and waits; then comes thread 0, whose turn it is.\<close>

lemma two_threads_waits:
  "\<exists>a b. task_clock_entry_wait (thread 1) two_threads = Inr a \<and> task_clock_entry_wait (thread 0) a = Inr b \<and>
     get_clock_ticks a = get_clock_ticks two_threads \<and> get_clock_ticks b = get_clock_ticks two_threads \<and>
     active_threads a = active_threads two_threads \<and> active_threads b = active_threads two_threads \<and>
     initialized (clocks a 0) \<and> initialized (clocks a 1) \<and> initialized (clocks b 0)"
  by (simp add: two_threads_def running_entry_def active_list_01 concrete_defs state_defs list_defs
      decision_defs task_clock_entry_wait_def fun_eq_iff)

lemma two_threads_members: "on_list two_threads i \<longleftrightarrow> i = 0 \<or> i = 1"
  by (auto simp: on_list_def two_threads_def active_list_01 list_defs Let_def tc_macro)

theorem no_deadlock_witness:
  "\<exists>S. (wait_step 2 ten_each)\<^sup>*\<^sup>* (sync_start two_threads two_dues) S \<and> arrived S = {0, 1} \<and>
     (\<exists>i\<in>arrived S. has_been_told S i \<and> next_due 2 (due S) = i)"
proof -
  obtain a b where ops: "task_clock_entry_wait (thread 1) two_threads = Inr a"
    "task_clock_entry_wait (thread 0) a = Inr b"
    and clk: "get_clock_ticks a = get_clock_ticks two_threads" "get_clock_ticks b = get_clock_ticks two_threads"
    and la: "active_threads a = active_threads two_threads" "active_threads b = active_threads two_threads"
    and ini: "initialized (clocks a 0)" "initialized (clocks a 1)" "initialized (clocks b 0)"
    using two_threads_waits by blast
  have on: "on_list s = on_list two_threads" if "active_threads s = active_threads two_threads" for s
    using that by (simp add: on_list_def fun_eq_iff)
  note facts = two_threads_start on[OF la(1)] on[OF la(2)] two_threads_members clk ini
  define S0 where "S0 = sync_start two_threads two_dues"
  define S1 where "S1 = S0\<lparr>kst := a, arrived := insert 1 (arrived S0), seen := (seen S0)(1 := wakeups a 1)\<rparr>"
  define S2 where "S2 = S1\<lparr>kst := b, arrived := insert 0 (arrived S1), seen := (seen S1)(0 := wakeups b 0)\<rparr>"
  note sd = S0_def S1_def S2_def sync_start_def two_dues_def
  have "wait_step 2 ten_each S0 S1" unfolding S1_def
    by (rule wait_step.arrive[OF asks.wait[OF thread_1_ok]]) (use ops(1) facts in \<open>auto simp: sd in_time_def\<close>)
  moreover have "wait_step 2 ten_each S1 S2" unfolding S2_def
    by (rule wait_step.arrive[OF asks.wait[OF thread_0_ok]]) (use ops(2) facts in \<open>auto simp: sd in_time_def\<close>)
  ultimately have run: "(wait_step 2 ten_each)\<^sup>*\<^sup>* (sync_start two_threads two_dues) S2"
    unfolding S0_def by (meson r_into_rtranclp rtranclp_trans)
  have "kst S2 = b" and arr: "arrived S2 = {0, 1}" by (auto simp: sd)
  then have "\<exists>i\<in>arrived S2. has_been_told S2 i \<and> next_due 2 (due S2) = i"
    using no_deadlock[OF two_threads_reachable _ two_dues_ok run, of 0] facts
    by (auto simp: LISTARRAY_MAX_SIZE_def)
  with run arr show ?thesis by blast
qed

end
