(* ===== verification/Late_Work.thy ===== *)
theory Late_Work
  imports Sync_Progress
begin

text \<open>
  The case \<open>no_deadlock\<close> leaves out: the work that an overflow interrupt queues can come late, and
  then all threads wait and none has been told. The run is given step by step, on three threads set up by the handlers.
\<close>

subsection \<open>Three threads\<close>

definition thread3 :: "int \<Rightarrow> env" where
  "thread3 i = (thread i)\<lparr>task_clock_max_threads := 3\<rparr>"

definition three_threads :: kstate where
  "three_threads = zero_state\<lparr>
     clocks := (\<lambda>_. zero_entry)(0 := running_entry, 1 := running_entry\<lparr>base_ticks := 1\<rparr>,
       2 := running_entry\<lparr>base_ticks := 1\<rparr>),
     lowest_tid := 0, user_status_arr := Some 128, active_threads := active_list [0, 1, 2],
     ustat := (\<lambda>_. zero_user_status)
       (1 := zero_user_status\<lparr>us_hwc_idx := - 1\<rparr>,
        0 := zero_user_status\<lparr>us_lowest_clock := 1, us_notifying_clock := 666,
               us_notifying_sample := 666, us_hwc_idx := - 1\<rparr>,
        2 := zero_user_status\<lparr>us_hwc_idx := - 1\<rparr>)\<rparr>"

definition setup3 :: "kstate result" where
  "setup3 =
     bindE (task_clock_entry_init (thread3 0) (task_clock_group_init (thread3 0) zero_state) zero_event 0x10080 (\<lambda>_. Some ())) (\<lambda>s.
     bindE (task_clock_entry_activate (thread3 0) s) (\<lambda>s.
     bindE (task_clock_entry_activate_other (thread3 0) s 1) (\<lambda>s.
     bindE (task_clock_entry_init (thread3 1) s zero_event 0x100c8 (\<lambda>_. Some ())) (\<lambda>s.
     bindE (task_clock_entry_activate_other (thread3 0) s 2) (\<lambda>s.
     task_clock_entry_init (thread3 2) s zero_event 0x10110 (\<lambda>_. Some ()))))))"

lemma active_list_012:
  "active_list [0, 1, 2] = \<lparr>entries = (\<lambda>_. \<lparr>nxt = 4097, prv = 4097\<rparr>)
       (0 := \<lparr>nxt = 1, prv = - 1\<rparr>, 1 := \<lparr>nxt = 2, prv = 0\<rparr>, 2 := \<lparr>nxt = - 1, prv = 1\<rparr>),
     head = 0, tail = 2, la_count = 3, max_index = 2\<rparr>"
  by (simp add: active_list_def list_defs Let_def tc_macro)

lemma setup3_result: "setup3 = Inr three_threads"
  by (simp add: setup3_def three_threads_def running_entry_def active_list_012 thread3_def
      concrete_defs state_defs list_defs setup_defs period_defs decision_defs upt_rec)

lemmas three_defs = three_threads_def running_entry_def active_list_012 thread3_def concrete_defs state_defs list_defs
      decision_defs period_defs task_clock_entry_wait_def task_clock_entry_sleep_def sleep_round_def
      active_thread_count_def task_clock_on_enable_def task_clock_entry_overflow_update_period_def
      logical_clock_update_clock_ticks_def ic_update_clock_ticks_def task_clock_overflow_handler_def
      task_clock_entry_stop_def counting_defs lowest_clock_mapped_def sizeof_user_status_def PAGE_SIZE_def
      task_clock_entry_stop_no_notify_def task_clock_notify_waiting_threads_def set_new_low_def bounded_memory_fence_turn_on_tf_def

lemma thread3_ok: "i = 0 \<or> i = 1 \<or> i = 2 \<Longrightarrow> call_ok 3 (thread3 i) \<and> call_ok 3 ((thread3 i)\<lparr>rdmsr := n\<rparr>)"
  "cur (thread3 i) = i"
  by (auto simp: call_ok_def valid_id_def thread3_def thread_def)

lemma three_threads_reachable: "tc_reach 3 three_threads"
proof -
  have ok: "call_ok 3 (thread3 0)" "call_ok 3 (thread3 1)" "call_ok 3 (thread3 2)" by (simp_all add: thread3_ok)
  obtain a b c d e where
    a: "task_clock_entry_init (thread3 0) (task_clock_group_init (thread3 0) zero_state) zero_event 0x10080
          (\<lambda>_. Some ()) = Inr a"
    and b: "task_clock_entry_activate (thread3 0) a = Inr b"
    and c: "task_clock_entry_activate_other (thread3 0) b 1 = Inr c"
    and d: "task_clock_entry_init (thread3 1) c zero_event 0x100c8 (\<lambda>_. Some ()) = Inr d"
    and e: "task_clock_entry_activate_other (thread3 0) d 2 = Inr e"
    and t: "task_clock_entry_init (thread3 2) e zero_event 0x10110 (\<lambda>_. Some ()) = Inr three_threads"
    using setup3_result unfolding setup3_def bindE_eq_Inr by blast
  have "tc_reach 3 (task_clock_group_init (thread3 0) zero_state)"
    by (rule tc_reach.start) (simp add: thread3_def)
  note tc_reach.step[OF this tc_step.entry_init[OF ok(1) a]]
  note tc_reach.step[OF this tc_step.activate[OF ok(1) b]]
  note tc_reach.step[OF this tc_step.activate_other[OF ok(1) c]]
  note tc_reach.step[OF this tc_step.entry_init[OF ok(2) d]]
  note tc_reach.step[OF this tc_step.activate_other[OF ok(1) e]]
  note tc_reach.step[OF this tc_step.entry_init[OF ok(3) t]]
  then show ?thesis .
qed

subsection \<open>The states of the run\<close>

text \<open>\<open>at3 s x y z\<close>: the three threads are active and set up, and these are their clocks.\<close>

definition at3 :: "kstate \<Rightarrow> u64 \<Rightarrow> u64 \<Rightarrow> u64 \<Rightarrow> bool" where
  "at3 s x y z \<longleftrightarrow> active_threads s = active_list [0, 1, 2] \<and>
     initialized (clocks s 0) \<and> initialized (clocks s 1) \<and> initialized (clocks s 2) \<and>
     get_clock_ticks s 0 = x \<and> get_clock_ticks s 1 = y \<and> get_clock_ticks s 2 = z"

definition no_flags :: "kstate \<Rightarrow> bool" where
  "no_flags s \<longleftrightarrow> us_lowest_clock (ustat s 0) = 0 \<and> us_lowest_clock (ustat s 1) = 0 \<and>
     us_lowest_clock (ustat s 2) = 0 \<and> wakeups s = (\<lambda>_. 0)"

lemma pmc_delta_50: "pmc_delta 50 0 = 50" "pmc_delta 0 0 = 0"
  using pmc_delta_exact[of 50 0 50] pmc_delta_exact[of 0 0 0] by simp_all

text \<open>Thread 0 has stopped and told thread 1; the work is still queued.\<close>

definition handed_over :: kstate where
  "handed_over = three_threads\<lparr>
     clocks := (\<lambda>_. zero_entry)(1 := running_entry\<lparr>waiting := True, base_ticks := 1\<rparr>,
       2 := running_entry\<lparr>waiting := True, sleeping := True, base_ticks := 1\<rparr>,
       0 := running_entry\<lparr>waiting := True, ticks := 20, chunk_ticks := 20, debug_last_enable_ticks := 20\<rparr>),
     lowest_tid := 1, lowest_ticks := 1,
     ustat := (\<lambda>_. zero_user_status)(2 := zero_user_status\<lparr>us_ticks := 1, us_hwc_idx := - 1\<rparr>,
       0 := zero_user_status\<lparr>us_ticks := 20, us_notifying_clock := 666, us_notifying_sample := 666,
              us_hwc_idx := - 1\<rparr>,
       1 := zero_user_status\<lparr>us_lowest_clock := 1, us_ticks := 1, us_hwc_idx := - 1\<rparr>),
     effects := [IrqWorkQueue]\<rparr>"

lemma late_ops1:
  "\<exists>a b c d e. task_clock_entry_wait (thread3 1) three_threads = Inr a \<and> at3 a 0 1 1 \<and>
    task_clock_entry_sleep [thread3 2] a = Inr b \<and> at3 b 0 1 1 \<and>
    task_clock_on_enable (thread3 0) b = Inr c \<and> at3 c 0 1 1 \<and>
    task_clock_entry_overflow_update_period (thread3 0) (upd_event 0 (\<lambda>p. p\<lparr>ev_count := 20\<rparr>) c) = Inr d \<and> at3 d 20 1 1 \<and>
    task_clock_overflow_handler (thread3 0) d 0 = Inr (e, 0) \<and> at3 e 20 1 1 \<and>
    task_clock_entry_stop (thread3 0) e = Inr handed_over"
  by (simp add: three_defs pmc_delta_50 at3_def handed_over_def)

text \<open>Thread 1 has run past thread 2 and read its counter.\<close>

definition went_past :: kstate where
  "went_past = handed_over\<lparr>
     clocks := (\<lambda>_. zero_entry)(2 := running_entry\<lparr>waiting := True, sleeping := True, base_ticks := 1\<rparr>,
       0 := running_entry\<lparr>waiting := True, ticks := 20, chunk_ticks := 20, debug_last_enable_ticks := 20\<rparr>,
       1 := running_entry\<lparr>base_ticks := 1, ticks := 50, chunk_ticks := 50, debug_last_overflow_ticks := 50,
              event := zero_event\<lparr>hw := (hw zero_event)\<lparr>prev_count := 50\<rparr>\<rparr>\<rparr>),
     ustat := (\<lambda>_. zero_user_status)(2 := zero_user_status\<lparr>us_ticks := 1, us_hwc_idx := - 1\<rparr>,
       0 := zero_user_status\<lparr>us_ticks := 20, us_notifying_clock := 666, us_notifying_sample := 666,
              us_hwc_idx := - 1\<rparr>,
       1 := zero_user_status\<lparr>us_lowest_clock := 1, us_ticks := 51, us_hwc_idx := - 1\<rparr>)\<rparr>"

lemma late_ops2:
  "\<exists>g h. task_clock_on_enable (thread3 1) handed_over = Inr g \<and> at3 g 20 1 1 \<and>
    task_clock_entry_wait (thread3 1) g = Inr h \<and> at3 h 20 1 1 \<and> us_lowest_clock (ustat h 1) = 1 \<and>
    task_clock_entry_stop_no_notify ((thread3 1)\<lparr>rdmsr := 50\<rparr>) h = went_past"
  by (simp add: handed_over_def went_past_def three_defs pmc_delta_50 at3_def)

lemma late_ops3:
  "\<exists>k m. task_clock_notify_waiting_threads (thread3 0) went_past = Inr k \<and> at3 k 20 51 1 \<and>
    task_clock_entry_wait (thread3 1) k = Inr m \<and> at3 m 20 51 1 \<and> no_flags m \<and>
    effects m = [IrqWorkQueue] \<and> sleeping (clocks m 2)"
  by (simp add: handed_over_def went_past_def three_defs at3_def no_flags_def wakeups_def fun_eq_iff)

lemma late_states: "at3 three_threads 0 1 1" "at3 handed_over 20 1 1" "at3 went_past 20 51 1"
  "us_lowest_clock (ustat handed_over 1) = 1"
  by (simp_all add: at3_def handed_over_def went_past_def three_defs)

lemma at3_on_list: "at3 s x y z \<Longrightarrow> on_list s i \<longleftrightarrow> i = 0 \<or> i = 1 \<or> i = 2"
  by (auto simp: at3_def on_list_def active_list_012 list_defs Let_def tc_macro)

subsection \<open>The run\<close>

definition late_dues :: dues where
  "late_dues = [0 \<mapsto> 20, 1 \<mapsto> 1, 2 \<mapsto> 1]"

definition late_program :: program where
  "late_program i h = (if h = [1] then Some 0 else Some 50)"

definition comes_to :: "kstate \<Rightarrow> tid list \<Rightarrow> dues \<Rightarrow> tid set \<Rightarrow> bool" where
  "comes_to s h D A \<longleftrightarrow> (\<exists>n. (sync_step 3 late_program)\<^sup>*\<^sup>* (sync_start three_threads late_dues)
     \<lparr>kst = s, hist = h, due = D, arrived = A, seen = n\<rparr>)"

lemma comes_toI:
  assumes "comes_to s h D A" "\<And>n. \<exists>m. sync_step 3 late_program \<lparr>kst = s, hist = h, due = D, arrived = A, seen = n\<rparr>
     \<lparr>kst = t, hist = h', due = D', arrived = A', seen = m\<rparr>"
  shows "comes_to t h' D' A'"
proof -
  from assms(1) obtain n where run: "(sync_step 3 late_program)\<^sup>*\<^sup>* (sync_start three_threads late_dues)
     \<lparr>kst = s, hist = h, due = D, arrived = A, seen = n\<rparr>" unfolding comes_to_def by blast
  from assms(2) obtain m where "sync_step 3 late_program \<lparr>kst = s, hist = h, due = D, arrived = A, seen = n\<rparr>
     \<lparr>kst = t, hist = h', due = D', arrived = A', seen = m\<rparr>" by blast
  with run show ?thesis unfolding comes_to_def by (blast intro: rtranclp.rtrancl_into_rtrancl)
qed

lemma comes_to_call:
  assumes "comes_to s h D A" "runs 3 j s t"
    "in_time \<lparr>kst = s, hist = h, due = D, arrived = A, seen = \<lambda>_. 0\<rparr> j t"
  shows "comes_to t h D A"
proof (rule comes_toI[OF assms(1)])
  fix n
  from sync_step.call[of 3 j "\<lparr>kst = s, hist = h, due = D, arrived = A, seen = n\<rparr>" t late_program] assms(2,3)
  show "\<exists>m. sync_step 3 late_program \<lparr>kst = s, hist = h, due = D, arrived = A, seen = n\<rparr>
     \<lparr>kst = t, hist = h, due = D, arrived = A, seen = m\<rparr>" by (auto simp: in_time_def)
qed

lemma comes_to_arrive:
  assumes "comes_to s h D A" "asks 3 j s t" "D j = Some (unat (get_clock_ticks t j))"
    "in_time \<lparr>kst = s, hist = h, due = D, arrived = A, seen = \<lambda>_. 0\<rparr> j t"
  shows "comes_to t h D (insert j A)"
proof (rule comes_toI[OF assms(1)])
  fix n
  from sync_step.arrive[of 3 j "\<lparr>kst = s, hist = h, due = D, arrived = A, seen = n\<rparr>" t late_program] assms(2-4)
  show "\<exists>m. sync_step 3 late_program \<lparr>kst = s, hist = h, due = D, arrived = A, seen = n\<rparr>
     \<lparr>kst = t, hist = h, due = D, arrived = insert j A, seen = m\<rparr>" by (auto simp: in_time_def)
qed

lemma comes_to_sync:
  assumes "comes_to s h D A" "i \<in> A" "us_lowest_clock (ustat s i) \<noteq> 0"
    "after_sync late_program i (D, h) = (D', h')"
  shows "comes_to s h' D' (A - {i})"
proof (rule comes_toI[OF assms(1)])
  fix n
  from sync_step.sync[of i "\<lparr>kst = s, hist = h, due = D, arrived = A, seen = n\<rparr>" late_program D' h' 3] assms(2-4)
  show "\<exists>m. sync_step 3 late_program \<lparr>kst = s, hist = h, due = D, arrived = A, seen = n\<rparr>
     \<lparr>kst = s, hist = h', due = D', arrived = A - {i}, seen = m\<rparr>" by (auto simp: has_been_told_def)
qed

lemma at3_in_time:
  assumes "at3 s x y z" "at3 t x' y' z'"
  shows "in_time \<lparr>kst = s, hist = h, due = D, arrived = A, seen = n\<rparr> 0 t \<longleftrightarrow>
      x \<le> x' \<and> (0 \<in> A \<longrightarrow> x' = x) \<and> (\<forall>v. D 0 = Some v \<longrightarrow> unat x' \<le> v)"
    "in_time \<lparr>kst = s, hist = h, due = D, arrived = A, seen = n\<rparr> 1 t \<longleftrightarrow>
      y \<le> y' \<and> (1 \<in> A \<longrightarrow> y' = y) \<and> (\<forall>v. D 1 = Some v \<longrightarrow> unat y' \<le> v)"
    "in_time \<lparr>kst = s, hist = h, due = D, arrived = A, seen = n\<rparr> 2 t \<longleftrightarrow>
      z \<le> z' \<and> (2 \<in> A \<longrightarrow> z' = z) \<and> (\<forall>v. D 2 = Some v \<longrightarrow> unat z' \<le> v)"
  using assms at3_on_list[OF assms(1)] at3_on_list[OF assms(2)] by (auto simp: in_time_def at3_def)

lemma comes_to_handover:
  "comes_to handed_over [] late_dues {0, 1, 2}"
proof -
  note ok = thread3_ok(1)[THEN conjunct1] thread3_ok(2)
  obtain a b c d e where ops: "task_clock_entry_wait (thread3 1) three_threads = Inr a"
      "task_clock_entry_sleep [thread3 2] a = Inr b" "task_clock_on_enable (thread3 0) b = Inr c"
      "task_clock_entry_overflow_update_period (thread3 0) (upd_event 0 (\<lambda>p. p\<lparr>ev_count := 20\<rparr>) c) = Inr d"
      "task_clock_overflow_handler (thread3 0) d 0 = Inr (e, 0)" "task_clock_entry_stop (thread3 0) e = Inr handed_over"
    and at: "at3 a 0 1 1" "at3 b 0 1 1" "at3 c 0 1 1" "at3 d 20 1 1" "at3 e 20 1 1"
    using late_ops1 by blast
  let ?c = "upd_event 0 (\<lambda>p. p\<lparr>ev_count := 20\<rparr>) c"
  have at': "at3 ?c 0 1 1" using at(3) by (simp add: at3_def get_clock_ticks_def upd_event_def)
  have mach: "runs 3 0 c ?c" by (rule runs.machine) (simp_all add: same_sched_def upd_event_def)
  have "comes_to three_threads [] late_dues {}"
    unfolding comes_to_def by (intro exI[of _ "\<lambda>_. 0"]) (simp add: sync_start_def)
  then have "comes_to a [] late_dues {1}"
    by (rule comes_to_arrive[OF _ asks.wait[OF ok, of 1]])
      (use ops at late_states in \<open>simp_all add: at3_in_time[OF late_states(1) at(1)] late_dues_def at3_def\<close>)
  then have "comes_to b [] late_dues (insert 2 {1})"
    by (rule comes_to_arrive[OF _ asks.sleep[of "[thread3 2]"]])
      (use ops at ok in \<open>simp_all add: at3_in_time[OF at(1,2)] late_dues_def at3_def\<close>)
  then have "comes_to c [] late_dues (insert 2 {1})"
    by (rule comes_to_call[OF _ runs.on_enable[OF ok, of 0]])
      (use ops at in \<open>simp_all add: at3_in_time[OF at(2,3)] late_dues_def\<close>)
  then have "comes_to ?c [] late_dues (insert 2 {1})"
    by (rule comes_to_call[OF _ mach]) (simp add: at3_in_time[OF at(3) at'] late_dues_def)
  then have "comes_to d [] late_dues (insert 2 {1})"
    by (rule comes_to_call[OF _ runs.update_period[OF ok(2), of 0]])
      (use ops in \<open>simp_all add: at3_in_time[OF at' at(4)] late_dues_def\<close>)
  then have "comes_to e [] late_dues (insert 2 {1})"
    by (rule comes_to_call[OF _ runs.overflow[OF ok(2), of 0]])
      (use ops in \<open>simp_all add: at3_in_time[OF at(4,5)] late_dues_def\<close>)
  then have "comes_to handed_over [] late_dues (insert 0 (insert 2 {1}))"
    by (rule comes_to_arrive[OF _ asks.stop[OF ok, of 0]])
      (use ops late_states in \<open>simp_all add: at3_in_time[OF at(5) late_states(2)] late_dues_def at3_def\<close>)
  then show ?thesis by (simp add: insert_commute)
qed

text \<open>
  C18: the queued work can come late, and then all threads of a process wait and none is told. Thread 0 runs past
  the waiting threads 1 and 2, so that its overflow interrupt queues the work, and stops,
  which tells thread 1. Before the work runs, thread 1 performs its operation, runs past thread
  2 and reads its counter. The work now records thread 2 as the lowest and tells nobody, and when thread 1 comes
  to its next operation the module takes thread 2 as told already: thread 2, whose operation is next, sleeps,
  and nobody has been woken.
\<close>

theorem late_work_deadlock:
  "\<exists>S. (sync_step 3 late_program)\<^sup>*\<^sup>* (sync_start three_threads late_dues) S \<and> tc_reach 3 (kst S) \<and>
     all_arrived S \<and> arrived S = {0, 1, 2} \<and> \<not> (\<exists>i. has_been_told S i \<and> i \<in> arrived S) \<and>
     next_due 3 (due S) = 2 \<and> sleeping (clocks (kst S) 2) \<and> effects (kst S) = [IrqWorkQueue]"
proof -
  note ok = thread3_ok(1)[THEN conjunct1] thread3_ok(2)
  obtain g h where ops: "task_clock_on_enable (thread3 1) handed_over = Inr g"
      "task_clock_entry_wait (thread3 1) g = Inr h"
      "task_clock_entry_stop_no_notify ((thread3 1)\<lparr>rdmsr := 50\<rparr>) h = went_past"
    and at: "at3 g 20 1 1" "at3 h 20 1 1" and flag: "us_lowest_clock (ustat h 1) = 1"
    using late_ops2 by blast
  obtain k m where ops': "task_clock_notify_waiting_threads (thread3 0) went_past = Inr k"
      "task_clock_entry_wait (thread3 1) k = Inr m"
    and at': "at3 k 20 51 1" "at3 m 20 51 1" and none: "no_flags m" "sleeping (clocks m 2)" "effects m = [IrqWorkQueue]"
    using late_ops3 by blast
  have past: "runs 3 1 h went_past"
    using runs.stop_no_notify[of 3 "(thread3 1)\<lparr>rdmsr := 50\<rparr>" 1 h] ops(3) thread3_ok by simp
  let ?D = "late_dues(1 := Some 51)"
  have "comes_to handed_over [1] late_dues ({0, 1, 2} - {1})"
    by (rule comes_to_sync[OF comes_to_handover])
      (simp_all add: late_states after_sync_def late_program_def late_dues_def fun_eq_iff)
  then have "comes_to handed_over [1] late_dues {0, 2}" by (simp add: insert_Diff_if)
  then have "comes_to g [1] late_dues {0, 2}"
    by (rule comes_to_call[OF _ runs.on_enable[OF ok, of 1]])
      (use ops in \<open>simp_all add: at3_in_time[OF late_states(2) at(1)] late_dues_def\<close>)
  then have "comes_to h [1] late_dues (insert 1 {0, 2})"
    by (rule comes_to_arrive[OF _ asks.wait[OF ok, of 1]])
      (use ops at in \<open>simp_all add: at3_in_time[OF at(1,2)] late_dues_def at3_def\<close>)
  then have "comes_to h [1, 1] ?D (insert 1 {0, 2} - {1})"
    by (rule comes_to_sync)
      (simp_all add: flag after_sync_def late_program_def late_dues_def fun_eq_iff)
  then have "comes_to went_past [1, 1] ?D (insert 1 {0, 2} - {1})"
    by (rule comes_to_call[OF _ past]) (simp add: at3_in_time[OF at(2) late_states(3)] late_dues_def)
  then have "comes_to k [1, 1] ?D (insert 1 {0, 2} - {1})"
    by (rule comes_to_call[OF _ runs.notify[OF ok, of 0]])
      (use ops' in \<open>simp_all add: at3_in_time[OF late_states(3) at'(1)] late_dues_def\<close>)
  then have "comes_to m [1, 1] ?D (insert 1 (insert 1 {0, 2} - {1}))"
    by (rule comes_to_arrive[OF _ asks.wait[OF ok, of 1]])
      (use ops' at' in \<open>simp_all add: at3_in_time[OF at'] late_dues_def at3_def\<close>)
  moreover have "insert 1 (insert 1 {0, 2} - {1}) = {0, 1, 2 :: tid}" by auto
  ultimately have end_state: "comes_to m [1, 1] ?D {0, 1, 2}" by simp
  then obtain n where run: "(sync_step 3 late_program)\<^sup>*\<^sup>* (sync_start three_threads late_dues)
     \<lparr>kst = m, hist = [1, 1], due = ?D, arrived = {0, 1, 2}, seen = n\<rparr>"
    by (auto simp: comes_to_def)
  let ?S = "\<lparr>kst = m, hist = [1, 1], due = ?D, arrived = {0, 1, 2}, seen = n\<rparr>"
  have start: "sync_inv 3 late_program late_dues (sync_start three_threads late_dues)"
    using late_states(1) at3_on_list[OF late_states(1)]
    by (intro sync_inv_start[OF three_threads_reachable]) (auto simp: late_dues_def at3_def split: if_splits)
  have "tc_reach 3 m"
    using sync_inv_run[OF run start] by (simp add: sync_inv_def LISTARRAY_MAX_SIZE_def)
  moreover have "all_arrived ?S" using at3_on_list[OF at'(2)] by (auto simp: all_arrived_def)
  moreover have "\<not> (\<exists>i. has_been_told ?S i \<and> i \<in> arrived ?S)"
    using none(1) by (auto simp: has_been_told_def no_flags_def)
  moreover have "next_due 3 ?D = 2"
    by (simp add: next_due_def late_dues_def due_lower_def upto.simps)
  ultimately show ?thesis using run none(2,3) by (intro exI[of _ ?S]) simp
qed

end
