(* ===== verification/Clock_Properties.thy ===== *)
theory Clock_Properties
  imports Clock_Runs
begin

text \<open>
  What the handlers of \<open>clock_main.c\<close> guarantee in the states the module can reach. Each
  property rests on the classification of the decision (\<open>Clock_Decision\<close>), the invariant
  (\<open>Clock_Invariant\<close>) and reachability (\<open>Clock_System\<close>).
\<close>

text \<open>
  C1: in every state the module can reach, by any interleaving of the handlers with what
  the hardware and user space change, the walk over the active threads ends without leaving
  the array, visits each active thread once, agrees with the count, and every thread it
  visits has a valid id and is not inactive; the recorded lowest thread is a valid id or
  \<open>-1\<close>, and a thread that sleeps is waiting or inactive.
\<close>

theorem reachable_states_well_formed:
  assumes "tc_reach M s" "M \<le> LISTARRAY_MAX_SIZE"
  shows "\<exists>xs. listarray_foreach (active_threads s) = Inr xs \<and> distinct xs \<and>
      listarray_count (active_threads s) = int (length xs) \<and>
      (\<forall>i\<in>set xs. 0 \<le> i \<and> i < M \<and> \<not> inactive (clocks s i)) \<and>
      (lowest_tid s = -1 \<or> 0 \<le> lowest_tid s \<and> lowest_tid s < M) \<and>
      (\<forall>i. 0 \<le> i \<and> i < M \<and> sleeping (clocks s i) \<longrightarrow> waiting (clocks s i) \<or> inactive (clocks s i))"
proof -
  from tc_invE[OF tc_reach_inv[OF assms]] obtain xs where "la_rep (active_threads s) xs"
    "\<forall>i\<in>set xs. valid_id M i \<and> \<not> inactive (clocks s i)"
    "\<forall>i. valid_id M i \<longrightarrow> sleeping (clocks s i) \<longrightarrow> waiting (clocks s i) \<or> inactive (clocks s i)"
    "lowest_tid s = -1 \<or> valid_id M (lowest_tid s)" .
  then show ?thesis
    by (intro exI[of _ xs]) (auto simp: la.walk_rep la.size_rep la_rep_distinct valid_id_def)
qed

theorem reachable_states_well_formed_witness:
  "\<exists>xs. listarray_foreach (active_threads two_threads) = Inr xs \<and> distinct xs"
  using reachable_states_well_formed[OF two_threads_reachable] by (auto simp: tc_macro)

subsection \<open>The decision\<close>

text \<open>
  C22: with at most 128 threads, a decision taken in a reachable state always returns:
  no \<open>BUG_ON\<close>, no access outside an array and no endless walk.
\<close>

theorem decision_always_returns:
  assumes "tc_reach M s" "M \<le> 128" "call_ok M E"
  shows "\<exists>t w. determine_lowest_and_notify_or_wait E s = Inr (t, w)"
proof -
  from assms(2) have "M \<le> LISTARRAY_MAX_SIZE" by (simp add: LISTARRAY_MAX_SIZE_def)
  from reach_activeE[OF assms(1) this] obtain xs where
    "la_rep (active_threads s) xs" "\<forall>i\<in>set xs. 0 \<le> i \<and> i < M \<and> \<not> inactive (clocks s i)" .
  with assms(2) show ?thesis
    by (intro determine_total[OF _ call_okD(3)[OF assms(3)]]) (auto simp: THREAD_ARR_SIZE_def)
qed

theorem decision_always_returns_witness:
  "\<exists>t w. determine_lowest_and_notify_or_wait (thread 1) two_threads = Inr (t, w)"
  by (rule decision_always_returns[OF two_threads_reachable]) (simp_all add: thread_ok)

text \<open>
  When a decision leaves the running thread with \<open>lowest_clock\<close> set in its user
  page, the thread is the only active one, or it has the lowest clock of all active
  initialised threads, is recorded as the lowest, and is no longer marked as waiting.
\<close>

lemma named_only_if_lowest:
  assumes "tc_reach M s" "M \<le> LISTARRAY_MAX_SIZE" "call_ok M E"
    and "determine_lowest_and_notify_or_wait E s = Inr (t, w)" "us_lowest_clock (ustat t (cur E)) = 1"
  shows "\<not> waiting (clocks t (cur E)) \<and> w = -1 \<and>
     (current_is_only_active_thread E s \<or>
      lowest_tid t = cur E \<and>
      (\<exists>xs. listarray_foreach (active_threads s) = Inr xs \<and>
         least_of s {i \<in> set xs. candidate s i} (cur E)))"
proof -
  from reach_activeE[OF assms(1,2)] obtain xs where
    xs: "la_rep (active_threads s) xs" "listarray_foreach (active_threads s) = Inr xs" .
  from determine_verdict[OF xs(1) call_okD(3,2)[OF assms(3)] assms(4)] obtain v where
    v: "verdict_ok E xs s t w v" "if is_named v then named_state E t else waiting_state E s t" by blast
  with assms(5) have "is_named v" by (auto simp: waiting_state_def split: if_splits)
  with v xs(2) show ?thesis by (cases v) (auto simp: verdict_ok_def named_state_def)
qed

lemma named_only_if_lowest_witness:
  "\<exists>t w. determine_lowest_and_notify_or_wait (thread 0) two_threads = Inr (t, w) \<and> lowest_tid t = 0"
proof -
  obtain t w where d: "determine_lowest_and_notify_or_wait (thread 0) two_threads = Inr (t, w)"
    "us_lowest_clock (ustat t (cur (thread 0))) = 1"
    by (simp add: two_threads_def running_entry_def active_list_01 concrete_defs state_defs list_defs decision_defs)
  have "\<not> current_is_only_active_thread (thread 0) two_threads"
    by (simp add: current_is_only_active_thread_def two_threads_def active_list_01 listarray_count_def)
  with named_only_if_lowest[OF two_threads_reachable _ _ d] d(1) show ?thesis
    by (auto simp: thread_ok LISTARRAY_MAX_SIZE_def) (simp add: thread_def)
qed

text \<open>
  C6: the thread a decision asks to wake is another thread, it is waiting, it
  has the lowest clock of all active initialised threads, and it is recorded as the lowest
  with its notification no longer outstanding; the running thread waits.
\<close>

theorem woken_thread_is_lowest_and_waiting:
  assumes "tc_reach M s" "M \<le> LISTARRAY_MAX_SIZE" "call_ok M E"
    and "determine_lowest_and_notify_or_wait E s = Inr (t, w)" "0 \<le> w"
  shows "w \<noteq> cur E \<and> w < M \<and> waiting (clocks s w) \<and> lowest_tid t = w \<and> \<not> notification_needed t \<and>
     waiting (clocks t (cur E)) \<and> us_lowest_clock (ustat t (cur E)) = 0 \<and>
     (\<exists>xs. listarray_foreach (active_threads s) = Inr xs \<and> least_of s {i \<in> set xs. candidate s i} w)"
proof -
  from reach_activeE[OF assms(1,2)] obtain xs where
    xs: "la_rep (active_threads s) xs" "listarray_foreach (active_threads s) = Inr xs"
    "\<forall>i\<in>set xs. 0 \<le> i \<and> i < M \<and> \<not> inactive (clocks s i)" .
  from determine_verdict[OF xs(1) call_okD(3,2)[OF assms(3)] assms(4)] obtain v where
    v: "verdict_ok E xs s t w v" "if is_named v then named_state E t else waiting_state E s t" by blast
  with assms(5) have "v = Waits_And_Wakes w" by (cases v) (auto simp: verdict_ok_def)
  with v xs(2,3) show ?thesis by (auto simp: verdict_ok_def waiting_state_def dest!: least_of_mem)
qed

theorem woken_thread_is_lowest_and_waiting_witness:
  "\<exists>s t. ran_ahead = Inr s \<and> determine_lowest_and_notify_or_wait (thread 0) s = Inr (t, 1) \<and>
     waiting (clocks s 1) \<and> lowest_tid t = 1"
proof -
  obtain s t where s: "ran_ahead = Inr s" "determine_lowest_and_notify_or_wait (thread 0) s = Inr (t, 1)"
    using ran_ahead_result by blast
  from woken_thread_is_lowest_and_waiting[OF ran_ahead_reachable[OF s(1)] _ _ s(2)] s show ?thesis
    by (auto simp: thread_ok LISTARRAY_MAX_SIZE_def)
qed

subsection \<open>Handing over\<close>

lemma wake_if_effect:
  assumes "wake_if (s, w) = Inr t" "0 \<le> w" "w = lowest_tid s"
  shows "if sleeping (clocks s w)
         then effects t = effects s @ [WakeUpAll w] \<and> buffer_poll (event (clocks t w))
         else us_lowest_clock (ustat t w) = 1"
  using assms
  by (auto simp: wake_if_def wake_up_waiting_thread_def is_sleeping_def upd_event_def
      split: if_splits option.splits)

lemma on_disable_Inr:
  assumes "task_clock_on_disable E s = Inr t"
  obtains u v w where "same_sched s u"
    "determine_lowest_and_notify_or_wait E (u\<lparr>notification_needed := True\<rparr>) = Inr (v, w)"
    "wake_if (v, w) = Inr t"
proof -
  let ?s1 = "if single_stepping_on E s (cur E) then end_bounded_memory_fence_early E s else s"
  let ?u = "if tick_counter_is_running E ?s1
            then tick_counter_turn_off E (logical_clock_update_clock_ticks E ?s1 (cur E))
            else logical_clock_reset_current_ticks E ?s1 (cur E)"
  have u: "same_sched s ?u" by (intro sched_intro same_sched_refl)
  from assms obtain r where "determine_lowest_and_notify_or_wait E (?u\<lparr>notification_needed := True\<rparr>) = Inr r"
    "wake_if r = Inr t"
    unfolding task_clock_on_disable_def Let_def bindE_eq_Inr by blast
  with u that show ?thesis by (cases r) blast
qed

text \<open>
  C7: a thread that disables its clock while others are active either is named the
  lowest, or it waits with \<open>lowest_clock\<close> cleared and, if the lowest thread is waiting, that
  thread has been told: by waking its wait queue with the poll flag set if it sleeps, by
  setting \<open>lowest_clock\<close> in its user page if it spins.
\<close>

theorem on_disable_hands_over:
  assumes "tc_reach M s" "M \<le> LISTARRAY_MAX_SIZE" "call_ok M E" "task_clock_on_disable E s = Inr t"
    and "\<not> current_is_only_active_thread E s"
  shows "lowest_tid t = cur E \<and> us_lowest_clock (ustat t (cur E)) = 1 \<or>
     lowest_tid t \<noteq> cur E \<and> us_lowest_clock (ustat t (cur E)) = 0 \<and> waiting (clocks t (cur E)) \<and>
     (lowest_tid t = -1 \<or> \<not> waiting (clocks t (lowest_tid t)) \<or>
      (if sleeping (clocks t (lowest_tid t))
       then last (effects t) = WakeUpAll (lowest_tid t) \<and> buffer_poll (event (clocks t (lowest_tid t)))
       else us_lowest_clock (ustat t (lowest_tid t)) = 1))"
proof -
  from on_disable_Inr[OF assms(4)] obtain u v w where
    u: "same_sched s u" and d: "determine_lowest_and_notify_or_wait E (u\<lparr>notification_needed := True\<rparr>) = Inr (v, w)"
    and wk: "wake_if (v, w) = Inr t" .
  let ?u = "u\<lparr>notification_needed := True\<rparr>"
  from reach_activeE[OF assms(1,2)] obtain xs where "la_rep (active_threads s) xs" .
  with u have rep: "la_rep (active_threads ?u) xs" by (simp add: same_sched_def)
  have na: "\<not> current_is_only_active_thread E ?u"
    using u assms(5) by (simp add: current_is_only_active_thread_def same_sched_def)
  from determine_verdict[OF rep call_okD(3,2)[OF assms(3)] d] obtain y where
    y: "verdict_ok E xs ?u v w y" "if is_named y then named_state E v else waiting_state E ?u v" by blast
  have t: "lowest_tid t = lowest_tid v" "\<And>j. waiting (clocks t j) = waiting (clocks v j)"
    "\<And>j. sleeping (clocks t j) = sleeping (clocks v j)"
    using same_sched_wake_if[OF wk] by (simp_all add: same_sched_def)
  have fr: "j \<noteq> cur E \<Longrightarrow> clocks v j = clocks u j" for j using determine_frame(4)[OF d] by simp
  show ?thesis
  proof (cases y)
    case Alone
    with y na show ?thesis by (simp add: verdict_ok_def)
  next
    case Named
    then have v: "w = -1" "lowest_tid v = cur E" "us_lowest_clock (ustat v (cur E)) = 1"
      using y by (simp_all add: verdict_ok_def named_state_def)
    then have "t = v" using wk by (simp add: wake_if_def)
    with v show ?thesis by simp
  next
    case (Waits_And_Wakes l)
    with y have l: "w = l" "lowest_tid v = l" "0 \<le> l" "l \<noteq> cur E" by (simp_all add: verdict_ok_def)
    with wake_if_effect[OF wk] have "if sleeping (clocks v l)
         then effects t = effects v @ [WakeUpAll l] \<and> buffer_poll (event (clocks t l))
         else us_lowest_clock (ustat t l) = 1" by (auto split: if_splits)
    moreover have "waiting (clocks v (cur E))" "us_lowest_clock (ustat v (cur E)) = 0"
      using y(2) Waits_And_Wakes by (simp_all add: waiting_state_def)
    moreover have "ustat t (cur E) = ustat v (cur E)"
      using wake_if_ustat_other[OF wk, of "cur E"] l by simp
    ultimately show ?thesis using l by (cases "sleeping (clocks v l)") (simp_all add: t)
  next
    case Waits
    then have v: "w = -1" "lowest_tid v \<noteq> cur E" "waiting (clocks v (cur E))"
      "us_lowest_clock (ustat v (cur E)) = 0" "lowest_tid v = -1 \<or> \<not> waiting (clocks u (lowest_tid v))"
      using y by (auto simp: verdict_ok_def waiting_state_def)
    then have "t = v" using wk by (simp add: wake_if_def)
    with v fr[of "lowest_tid v"] show ?thesis by auto
  qed
qed

theorem on_disable_hands_over_witness:
  "\<exists>s t. ran_ahead = Inr s \<and> task_clock_on_disable (thread 0) s = Inr t \<and>
     lowest_tid t = 1 \<and> us_lowest_clock (ustat t 1) = 1"
proof -
  obtain s t where s: "ran_ahead = Inr s" "\<not> current_is_only_active_thread (thread 0) s"
    and d: "task_clock_on_disable (thread 0) s = Inr t"
    and l: "lowest_tid t = 1" "waiting (clocks t 1)" "\<not> sleeping (clocks t 1)"
    using ran_ahead_disable by blast
  from on_disable_hands_over[OF ran_ahead_reachable[OF s(1)] _ _ d s(2)] l
  have "us_lowest_clock (ustat t 1) = 1"
    by (auto simp: thread_ok LISTARRAY_MAX_SIZE_def)
  with s d l show ?thesis by blast
qed

end
