(* ===== verification/Handler_Properties.thy ===== *)
theory Handler_Properties
  imports Clock_Properties
begin

text \<open>
  The remaining handlers: ticks, halting and activating threads, the overflow interrupt and
  the work it queues, the sleep loop, and the page through which spinning threads are told.
\<close>

subsection \<open>Adding ticks, enabling\<close>

text \<open>
  Adding ticks moves the running thread's clock by the signed 32-bit argument,
  leaves every other clock alone, and publishes the new value in the thread's user page.
\<close>

lemma add_ticks_moves_only_own_clock:
  assumes "task_clock_add_ticks E s n = Inr t"
  shows "ticks (clocks t i) = (if i = cur E then ticks (clocks s i) + scast n else ticks (clocks s i)) \<and>
     base_ticks (clocks t i) = base_ticks (clocks s i) \<and>
     us_ticks (ustat t (cur E)) = get_clock_ticks t (cur E)"
  using add_ticks_effect[OF assms] by simp

text \<open>
  A thread that enables its clock is afterwards neither waiting, sleeping nor
  inactive, whoever is lowest; if it is recorded as the lowest, a notification is owed to
  whoever overtakes it, and no interrupt work is outstanding.
\<close>

lemma on_enable_runs:
  assumes "task_clock_on_enable E s = Inr t"
  shows "\<not> waiting (clocks t (cur E)) \<and> \<not> sleeping (clocks t (cur E)) \<and> \<not> inactive (clocks t (cur E)) \<and>
     (lowest_tid t = cur E \<longrightarrow> notification_needed t \<and> \<not> nmi_new_low t)"
proof -
  from on_enable_Inr[OF assms] obtain u v w where w: "wake_if (clear_entry_state E (if lowest_tid v = cur E
       then v\<lparr>notification_needed := True, nmi_new_low := False\<rparr> else v), w) = Inr t" .
  show ?thesis using same_sched_wake_if[OF w] by (auto simp: same_sched_def split: if_splits)
qed

subsection \<open>Halting and activating\<close>

lemma reach_inv_active:
  assumes "tc_reach M s" "M \<le> LISTARRAY_MAX_SIZE" "call_ok M E"
  obtains xs where "la_rep (active_threads s) xs" "listarray_foreach (active_threads s) = Inr xs"
    "la_in_range (cur E)"
  using reach_activeE[OF assms(1,2)] valid_id_in_range[OF call_okD(1)[OF assms(3)] assms(2)] by metis

text \<open>
  C23: only an active thread can halt; it leaves the list of active threads, which
  otherwise keeps its order, is marked inactive and not waiting, is told it is not the lowest,
  and is not recorded as the lowest.
\<close>

theorem halt_leaves_the_game:
  assumes "tc_reach M s" "M \<le> LISTARRAY_MAX_SIZE" "call_ok M E" "task_clock_entry_halt E s = Inr t"
  shows "\<exists>xs. listarray_foreach (active_threads s) = Inr xs \<and> cur E \<in> set xs \<and>
     listarray_foreach (active_threads t) = Inr (remove1 (cur E) xs) \<and>
     inactive (clocks t (cur E)) \<and> \<not> waiting (clocks t (cur E)) \<and>
     us_lowest_clock (ustat t (cur E)) = 0 \<and> lowest_tid t \<noteq> cur E"
proof -
  from reach_inv_active[OF assms(1-3)] obtain xs where
    xs: "la_rep (active_threads s) xs" "listarray_foreach (active_threads s) = Inr xs" "la_in_range (cur E)" .
  from halt_Inr[OF assms(4)] obtain u v w where u: "mark_as_inactive s (cur E) = Inr u"
    and v: "determine_lowest_and_notify_or_wait E u = Inr (v, w)"
    and w: "wake_if (upd_clock (cur E) (\<lambda>e. e\<lparr>waiting := False\<rparr>) v, w) = Inr t" .
  from u obtain la where la: "listarray_remove (active_threads s) (cur E) = Inr la"
    and u': "u = upd_clock (cur E) (\<lambda>e. e\<lparr>inactive := True\<rparr>) s\<lparr>active_threads := la\<rparr>"
    by (auto simp: mark_as_inactive_def Let_def)
  from la.del_Inr[OF xs(1,3) la] have mem: "cur E \<in> set xs" and rep: "la_rep (active_threads u) (remove1 (cur E) xs)"
    by (simp_all add: u')
  have "cur E \<notin> set (remove1 (cur E) xs)" using la_rep_distinct[OF xs(1)] by simp
  from halt_not_named[OF rep this _ assms(3) v] have nn: "waiting_state E u v" "lowest_tid v \<noteq> cur E"
    by (simp_all add: u')
  have "active_threads t = active_threads u"
    using same_sched_wake_if[OF w] determine_frame(1)[OF v] by (simp add: same_sched_def)
  moreover have "us_lowest_clock (ustat t (cur E)) = us_lowest_clock (ustat v (cur E))"
    using wake_if_ustat_other[OF w, of "cur E"] nn(2) by simp
  ultimately show ?thesis
    using xs(2) mem la.walk_rep[OF rep] nn same_sched_wake_if[OF w]
    by (auto simp: same_sched_def waiting_state_def u')
qed

theorem halt_leaves_the_game_witness:
  "\<exists>t. task_clock_entry_halt (thread 0) two_threads = Inr t \<and>
     listarray_foreach (active_threads t) = Inr [1] \<and> lowest_tid t \<noteq> 0"
proof -
  obtain t where t: "task_clock_entry_halt (thread 0) two_threads = Inr t"
    by (simp add: two_threads_def running_entry_def active_list_01 concrete_defs state_defs list_defs
        decision_defs task_clock_entry_halt_def mark_as_inactive_def)
  have "listarray_foreach (active_threads two_threads) = Inr [0, 1]"
    using active_list_rep[of "[0, 1]"] by (simp add: two_threads_def tc_macro la.walk_rep)
  with halt_leaves_the_game[OF two_threads_reachable _ _ t] t show ?thesis
    by (auto simp: thread_ok LISTARRAY_MAX_SIZE_def) (auto simp: thread_def)
qed

text \<open>
  C24: only a thread that is not active can activate itself (the \<open>BUG_ON\<close> catches
  the others); it joins the list at the end, neither waiting, sleeping nor inactive, and takes
  the place of the recorded lowest thread only if there was none or its own clock is lower.
\<close>

theorem activate_joins_the_game:
  assumes "tc_reach M s" "M \<le> LISTARRAY_MAX_SIZE" "call_ok M E" "task_clock_entry_activate E s = Inr t"
  shows "\<exists>xs. listarray_foreach (active_threads s) = Inr xs \<and> cur E \<notin> set xs \<and>
     listarray_foreach (active_threads t) = Inr (xs @ [cur E]) \<and>
     \<not> waiting (clocks t (cur E)) \<and> \<not> sleeping (clocks t (cur E)) \<and> \<not> inactive (clocks t (cur E)) \<and>
     (lowest_tid t = lowest_tid s \<or>
      lowest_tid t = cur E \<and> us_lowest_clock (ustat t (cur E)) = 1 \<and> \<not> notification_needed t \<and>
      (lowest_tid s = -1 \<or> clock_is_lower t (cur E) (lowest_tid s)))"
proof -
  from reach_inv_active[OF assms(1-3)] obtain xs where
    xs: "la_rep (active_threads s) xs" "listarray_foreach (active_threads s) = Inr xs" "la_in_range (cur E)" .
  from activate_Inr[OF assms(4)] obtain u v l where
    u: "mark_as_active (reset_chunk_ticks (clear_entry_state E s) (cur E)) (cur E) = Inr u"
    and v: "same_sched u v" and l: "new_lowest E v (cur E) = Inr l"
    and t: "t = (if l \<ge> 0 \<and> l = cur E
          then upd_ustat (cur E) (\<lambda>u. u\<lparr>us_lowest_clock := 1\<rparr>)
                 (v\<lparr>notification_needed := False, lowest_tid := l\<rparr>)
          else v)" .
  from u obtain la where la: "listarray_insert (active_threads s) (cur E) = Inr la"
    and u': "u = upd_clock (cur E) (\<lambda>e. e\<lparr>inactive := False\<rparr>)
        (reset_chunk_ticks (clear_entry_state E s) (cur E))\<lparr>active_threads := la\<rparr>"
    by (auto simp: mark_as_active_def Let_def tc_macro)
  from la.ins_Inr[OF xs(1,3) la] have mem: "cur E \<notin> set xs" and rep: "la_rep la (xs @ [cur E])" by simp_all
  have fl: "\<not> waiting (clocks v (cur E))" "\<not> sleeping (clocks v (cur E))" "\<not> inactive (clocks v (cur E))"
    "active_threads v = la" "lowest_tid v = lowest_tid s"
    using v by (simp_all add: same_sched_def u' reset_chunk_ticks_def)
  have cl: "clock_is_lower t = clock_is_lower v" "clocks t = clocks v" "active_threads t = active_threads v"
    unfolding t by (auto intro!: clock_is_lower_cong simp: get_clock_ticks_def)
  have "lowest_tid t = lowest_tid s \<or>
      lowest_tid t = cur E \<and> us_lowest_clock (ustat t (cur E)) = 1 \<and> \<not> notification_needed t \<and>
      (lowest_tid s = -1 \<or> clock_is_lower v (cur E) (lowest_tid s))"
    using l fl(5) by (auto simp: t new_lowest_def split: if_splits)
  with xs(2) mem la.walk_rep[OF rep] fl cl show ?thesis by auto
qed

theorem activate_joins_the_game_witness:
  "\<exists>s t. task_clock_entry_halt (thread 0) two_threads = Inr s \<and>
     task_clock_entry_activate (thread 0) s = Inr t \<and> listarray_foreach (active_threads t) = Inr [1, 0]"
proof -
  obtain s t where s: "task_clock_entry_halt (thread 0) two_threads = Inr s"
    and t: "task_clock_entry_activate (thread 0) s = Inr t" and f: "listarray_foreach (active_threads s) = Inr [1]"
    by (simp add: two_threads_def running_entry_def active_list_01 concrete_defs state_defs list_defs
        decision_defs period_defs task_clock_entry_halt_def mark_as_inactive_def mark_as_active_def
        task_clock_entry_activate_def)
  have "tc_reach 2 s"
    by (rule tc_reach.step[OF two_threads_reachable tc_step.halt[OF _ s]]) (simp add: thread_ok)
  from activate_joins_the_game[OF this _ _ t] f s t show ?thesis
    by (auto simp: thread_ok LISTARRAY_MAX_SIZE_def) (auto simp: thread_def)
qed

lemma activate_other_Inr:
  assumes "task_clock_entry_activate_other E s i = Inr t"
  obtains la where "valid_tid E i" "listarray_insert (active_threads s) i = Inr la"
    "active_threads t = la" "lowest_tid t = lowest_tid s"
    "get_clock_ticks t i = (if initialized (clocks s i) then get_clock_ticks s i else get_clock_ticks s (cur E) + 1)"
    "initialized (clocks t i)" "\<not> waiting (clocks t i)" "\<not> sleeping (clocks t i)" "\<not> inactive (clocks t i)"
    "lowest_tid s < 0 \<or> clock_is_lower t i (lowest_tid s) \<Longrightarrow> us_activated_lowest (ustat t (cur E)) = 1"
proof -
  let ?s1 = "if \<not> initialized (clocks s i)
             then upd_clock i (\<lambda>e. e\<lparr>base_ticks := get_clock_ticks s (cur E) + 1, ticks := 0\<rparr>) s else s"
  let ?s3 = "clear_entry_state_by_id E (upd_clock i (\<lambda>e. e\<lparr>initialized := True\<rparr>) ?s1) i"
  let ?r = "\<lambda>la. reset_chunk_ticks (upd_clock i (\<lambda>e. e\<lparr>inactive := False\<rparr>) ?s3\<lparr>active_threads := la\<rparr>) i"
  have vt: "valid_tid E i"
    using assms by (simp add: task_clock_entry_activate_other_def split: if_splits)
  have "bindE (mark_as_active ?s3 i) (\<lambda>s.
      Inr (if lowest_tid (reset_chunk_ticks s i) < 0 \<or>
              clock_is_lower (reset_chunk_ticks s i) i (lowest_tid (reset_chunk_ticks s i))
           then upd_ustat (cur E) (\<lambda>u. u\<lparr>us_activated_lowest := 1\<rparr>) (reset_chunk_ticks s i)
           else reset_chunk_ticks s i)) = Inr t"
    using assms vt
    by (simp only: task_clock_entry_activate_other_def Let_def not_True_eq_False if_False)
  then obtain u where u: "mark_as_active ?s3 i = Inr u"
    and t: "t = (if lowest_tid (reset_chunk_ticks u i) < 0 \<or>
                    clock_is_lower (reset_chunk_ticks u i) i (lowest_tid (reset_chunk_ticks u i))
                 then upd_ustat (cur E) (\<lambda>u. u\<lparr>us_activated_lowest := 1\<rparr>) (reset_chunk_ticks u i)
                 else reset_chunk_ticks u i)"
    unfolding bindE_eq_Inr by blast
  from u obtain la where la: "listarray_insert (active_threads s) i = Inr la"
    and u': "u = upd_clock i (\<lambda>e. e\<lparr>inactive := False\<rparr>) ?s3\<lparr>active_threads := la\<rparr>"
    by (auto simp: mark_as_active_def Let_def clear_entry_state_by_id_def split: if_splits)
  have cl: "clock_is_lower t = clock_is_lower (reset_chunk_ticks u i)"
    unfolding t by (auto intro!: clock_is_lower_cong simp: get_clock_ticks_def)
  have eqs: "active_threads t = la" "lowest_tid (reset_chunk_ticks u i) = lowest_tid s" "lowest_tid t = lowest_tid s"
    "clocks t = clocks (reset_chunk_ticks u i)"
    by (simp_all add: t u' clear_entry_state_by_id_def reset_chunk_ticks_def)
  show thesis
  proof (rule that[OF vt la])
    show "get_clock_ticks t i =
        (if initialized (clocks s i) then get_clock_ticks s i else get_clock_ticks s (cur E) + 1)"
      by (simp add: get_clock_ticks_def eqs u' clear_entry_state_by_id_def reset_chunk_ticks_def)
    show "us_activated_lowest (ustat t (cur E)) = 1"
      if "lowest_tid s < 0 \<or> clock_is_lower t i (lowest_tid s)"
      using that unfolding cl by (simp add: t eqs)
  qed (simp_all add: eqs u' clear_entry_state_by_id_def reset_chunk_ticks_def)
qed

text \<open>
  C25: a thread activated by another for the first time starts one tick
  behind the clock of the activating thread, so never as the lower of the two; a thread that
  was initialised before keeps its clock. It joins the list at the end with its flags clear,
  the recorded lowest thread stays, and user space is told when the newcomer is lower than it.
\<close>

theorem activate_other_starts_behind_parent:
  assumes "tc_reach M s" "M \<le> LISTARRAY_MAX_SIZE" "call_ok M E"
    and "task_clock_entry_activate_other E s i = Inr t"
  shows "\<exists>xs. listarray_foreach (active_threads s) = Inr xs \<and> i \<notin> set xs \<and>
     listarray_foreach (active_threads t) = Inr (xs @ [i]) \<and>
     get_clock_ticks t i =
       (if initialized (clocks s i) then get_clock_ticks s i else get_clock_ticks s (cur E) + 1) \<and>
     initialized (clocks t i) \<and> \<not> waiting (clocks t i) \<and> \<not> sleeping (clocks t i) \<and> \<not> inactive (clocks t i) \<and>
     lowest_tid t = lowest_tid s \<and>
     (lowest_tid s < 0 \<or> clock_is_lower t i (lowest_tid s) \<longrightarrow> us_activated_lowest (ustat t (cur E)) = 1)"
proof -
  from reach_activeE[OF assms(1,2)] obtain xs where
    xs: "la_rep (active_threads s) xs" "listarray_foreach (active_threads s) = Inr xs" .
  from activate_other_Inr[OF assms(4)] obtain la where la: "valid_tid E i"
    "listarray_insert (active_threads s) i = Inr la" "active_threads t = la" "lowest_tid t = lowest_tid s"
    "get_clock_ticks t i = (if initialized (clocks s i) then get_clock_ticks s i else get_clock_ticks s (cur E) + 1)"
    "initialized (clocks t i)" "\<not> waiting (clocks t i)" "\<not> sleeping (clocks t i)" "\<not> inactive (clocks t i)"
    "lowest_tid s < 0 \<or> clock_is_lower t i (lowest_tid s) \<Longrightarrow> us_activated_lowest (ustat t (cur E)) = 1"
    by blast
  have "la_in_range i"
    using la(1) call_okD(4)[OF assms(3)] assms(2) by (simp add: valid_tid_def la_in_range_def)
  from la.ins_Inr[OF xs(1) this la(2)] have "i \<notin> set xs" "listarray_foreach la = Inr (xs @ [i])"
    by (simp_all add: la.walk_rep)
  with xs(2) la(3-10) show ?thesis by (intro exI[of _ xs]) blast
qed

theorem activate_other_starts_behind_parent_witness:
  "\<exists>s t. task_clock_entry_halt (thread 1) two_threads = Inr s \<and>
     task_clock_entry_activate_other (thread 0) s 1 = Inr t \<and> get_clock_ticks t 1 = 1"
proof -
  obtain s t where s: "task_clock_entry_halt (thread 1) two_threads = Inr s"
    and t: "task_clock_entry_activate_other (thread 0) s 1 = Inr t"
    and c: "initialized (clocks s 1)" "get_clock_ticks s 1 = 1"
    by (simp add: two_threads_def running_entry_def active_list_01 concrete_defs state_defs list_defs
        decision_defs task_clock_entry_halt_def mark_as_inactive_def mark_as_active_def
        task_clock_entry_activate_other_def)
  have "tc_reach 2 s"
    by (rule tc_reach.step[OF two_threads_reachable tc_step.halt[OF _ s]]) (simp add: thread_ok)
  from activate_other_starts_behind_parent[OF this _ _ t] c s t show ?thesis
    by (auto simp: thread_ok LISTARRAY_MAX_SIZE_def)
qed

subsection \<open>Interrupts\<close>

text \<open>
  C26: an overflow interrupt changes the group in one way only: if the clock is
  counting, no work is outstanding, and the thread with the lowest clock is another one that
  is waiting, it queues the work that will wake that thread, and marks it as outstanding. It
  keeps the trap flag on while the thread is single stepped.
\<close>

theorem overflow_queues_work_for_lower_waiter:
  assumes "task_clock_overflow_handler E s flags = Inr (t, flags')"
  shows "(t = s \<or>
      t = emit IrqWorkQueue (s\<lparr>nmi_new_low := True\<rparr>) \<and> tick_counter_is_running E s \<and> \<not> nmi_new_low s \<and>
      (\<exists>l. search_for_lowest E s = Inr l \<and> 0 \<le> l \<and> l \<noteq> cur E \<and> waiting (clocks s l))) \<and>
     flags' = (if tick_counter_is_running E s \<and> single_stepping_on E s (cur E)
               then flags OR X86_EFLAGS_TF else flags)"
  using assms
  by (auto simp: task_clock_overflow_handler_def new_lowest_def thread_is_waiting_def Let_def
      bounded_memory_fence_turn_on_tf_def split: if_splits)

theorem overflow_queues_work_for_lower_waiter_witness:
  "\<exists>t. task_clock_overflow_handler (thread 0\<lparr>in_nmi := True\<rparr>)
     (upd_clock 0 (\<lambda>e. e\<lparr>count_ticks := 1, ticks := 50\<rparr>) (upd_clock 1 (\<lambda>e. e\<lparr>waiting := True\<rparr>) two_threads)) 5 =
       Inr (t, 5) \<and> effects t = [IrqWorkQueue]"
proof -
  let ?E = "thread 0\<lparr>in_nmi := True\<rparr>"
  let ?s = "upd_clock 0 (\<lambda>e. e\<lparr>count_ticks := 1, ticks := 50\<rparr>) (upd_clock 1 (\<lambda>e. e\<lparr>waiting := True\<rparr>) two_threads)"
  have "\<exists>t. task_clock_overflow_handler ?E ?s 5 = Inr (t, 5) \<and> nmi_new_low t"
    by (simp add: task_clock_overflow_handler_def two_threads_def running_entry_def active_list_01
        concrete_defs state_defs list_defs decision_defs listarray_foreach_allelements_def upto.simps[of 0 1]
        single_stepping_on_def)
  then obtain t where t: "task_clock_overflow_handler ?E ?s 5 = Inr (t, 5)" "nmi_new_low t" by blast
  have "\<not> nmi_new_low ?s" "effects ?s = []" by (simp_all add: two_threads_def zero_state_def)
  with overflow_queues_work_for_lower_waiter[OF t(1)] t show ?thesis by auto
qed

text \<open>
  C27: the queued work either finds the lowest thread not waiting and changes
  nothing, or records that thread as the lowest and, if a notification is owed, wakes exactly
  it, in the way it waits, and settles the debt; whatever the uninitialised array held.
\<close>

theorem queued_work_wakes_only_the_lowest_waiter:
  assumes "tc_reach M s" "M \<le> LISTARRAY_MAX_SIZE" "call_ok M E"
    and "task_clock_notify_waiting_threads E s = Inr t"
  shows "t = s \<or> (\<exists>xs l. listarray_foreach (active_threads s) = Inr xs \<and> lowest_tid t = l \<and>
      least_of s {i \<in> set xs. candidate s i} l \<and> waiting (clocks s l) \<and>
      (if notification_needed s \<or> nmi_new_low s
       then \<not> notification_needed t \<and> \<not> nmi_new_low t \<and>
            (if sleeping (clocks s l) then effects t = effects s @ [WakeUpAll l]
             else effects t = effects s \<and> us_lowest_clock (ustat t l) = 1)
       else effects t = effects s \<and> ustat t = ustat s))"
proof -
  from reach_activeE[OF assms(1,2)] obtain xs where
    xs: "la_rep (active_threads s) xs" "listarray_foreach (active_threads s) = Inr xs" .
  from assms(4) obtain l where l: "search_for_lowest_waiting E s = Inr l"
    and w: "wake_if (if l \<ge> 0 \<and> thread_is_waiting s l
        then let s = set_new_low s l
             in if notification_needed s \<or> nmi_new_low s
                then let s = s\<lparr>nmi_new_low := False, notification_needed := False\<rparr> in (s, lowest_tid s)
                else (s, -1)
        else (s, -1)) = Inr t"
    unfolding task_clock_notify_waiting_threads_def bindE_eq_Inr by blast
  show ?thesis
  proof (cases "l \<ge> 0 \<and> waiting (clocks s l)")
    case False
    with w show ?thesis by (auto simp: thread_is_waiting_def wake_if_def)
  next
    case True
    with search_for_lowest_waiting_Inr[OF xs(1) call_okD(3)[OF assms(3)] l]
    have le: "least_of s {i \<in> set xs. candidate s i} l" by auto
    have "lowest_tid t = l \<and> (if notification_needed s \<or> nmi_new_low s
       then \<not> notification_needed t \<and> \<not> nmi_new_low t \<and>
            (if sleeping (clocks s l) then effects t = effects s @ [WakeUpAll l]
             else effects t = effects s \<and> us_lowest_clock (ustat t l) = 1)
       else effects t = effects s \<and> ustat t = ustat s)"
      using w True
      by (auto simp: thread_is_waiting_def wake_if_def set_new_low_def wake_up_waiting_thread_def
          is_sleeping_def upd_event_def Let_def split: if_splits option.splits)
    with True le xs(2) show ?thesis by blast
  qed
qed

theorem queued_work_wakes_only_the_lowest_waiter_witness:
  "\<exists>s t. ran_ahead = Inr s \<and> task_clock_notify_waiting_threads (thread 0) s = Inr t \<and>
     lowest_tid t = 1 \<and> waiting (clocks s 1)"
proof -
  obtain s t where s: "ran_ahead = Inr s" and t: "task_clock_notify_waiting_threads (thread 0) s = Inr t"
    and l: "lowest_tid t = 1" "lowest_tid s = 0"
    using ran_ahead_notify by blast
  from queued_work_wakes_only_the_lowest_waiter[OF ran_ahead_reachable[OF s] _ _ t] l s t show ?thesis
    by (auto simp: thread_ok LISTARRAY_MAX_SIZE_def)
qed

subsection \<open>The sleep loop\<close>

text \<open>
  C19: the sleep loop holds the group lock, and a round that does not leave the
  loop leaves a state in which every later round does the same; so whatever the later rounds
  find on the stack, the call returns after its first round or not at all.
\<close>

theorem sleep_returns_in_first_round_or_never:
  assumes "tc_reach M s" "M \<le> LISTARRAY_MAX_SIZE" "call_ok M E"
    and "\<forall>E'\<in>set Es. call_ok M E' \<and> cur E' = cur E"
  shows "task_clock_entry_sleep (E # Es) s = task_clock_entry_sleep [E] s"
  unfolding task_clock_entry_sleep_def
  by (simp only: sleep_loop_first_round[OF tc_reach_inv[OF assms(1,2)] assms(3,4)])

theorem sleep_returns_in_first_round_or_never_witness:
  "task_clock_entry_sleep [thread 1, thread 1\<lparr>thread_arr := (\<lambda>_. 1)\<rparr>] two_threads =
   task_clock_entry_sleep [thread 1] two_threads"
  by (rule sleep_returns_in_first_round_or_never[OF two_threads_reachable])
    (simp_all add: thread_ok LISTARRAY_MAX_SIZE_def, simp add: call_ok_def valid_id_def thread_def)

text \<open>
  C17: such a call exists: there is a reachable state of a process with two threads in
  which a thread that goes to sleep never leaves the loop, because the other thread has been
  woken but has not run yet, so it still counts as asleep and is not notified again.
\<close>

theorem sleep_can_spin_forever:
  "\<exists>s E. tc_reach 2 s \<and> call_ok 2 E \<and> (\<forall>n. task_clock_entry_sleep (replicate n E) s = Inl Hang)"
proof -
  obtain s t w where s: "woken_not_run = Inr s" and r: "sleep_round (thread 1) s = Inr (t, w, True)"
    using woken_not_run_round by blast
  have ok: "call_ok 2 (thread 1)" by (simp add: thread_ok)
  have inv: "tc_inv 2 s"
    by (rule tc_reach_inv[OF woken_not_run_reachable[OF s]]) (simp add: LISTARRAY_MAX_SIZE_def)
  have "task_clock_entry_sleep (replicate n (thread 1)) s = Inl Hang" for n
    using sleep_loop_again[OF inv ok r, of "replicate (n - 1) (thread 1)"] ok
    by (cases n) (simp_all add: task_clock_entry_sleep_def del: sleep_loop.simps(2))
  with woken_not_run_reachable[OF s] ok show ?thesis by blast
qed

subsection \<open>The page of user status records\<close>

text \<open>
  C37: one page is mapped, and 57 records of 72 bytes do not fit in it, wherever the
  array starts; telling a spinning thread with id 57 or more that it is the lowest writes
  outside the mapping.
\<close>

theorem spinning_threads_beyond_the_page:
  assumes "user_status_arr s = Some off" "57 \<le> lowest_tid s" "\<not> sleeping (clocks s (lowest_tid s))"
  shows "wake_up_waiting_thread s (lowest_tid s) = Inl OutOfBounds"
proof -
  have "57 \<le> nat (lowest_tid s)" using assms(2) by simp
  then have "\<not> lowest_clock_mapped off (lowest_tid s)"
    by (simp add: lowest_clock_mapped_def PAGE_SIZE_def sizeof_user_status_def)
  with assms show ?thesis by (simp add: wake_up_waiting_thread_def is_sleeping_def)
qed

theorem spinning_threads_beyond_the_page_witness:
  "wake_up_waiting_thread (two_threads\<lparr>lowest_tid := 60\<rparr>) 60 = Inl OutOfBounds"
  using spinning_threads_beyond_the_page[of "two_threads\<lparr>lowest_tid := 60\<rparr>" 128]
  by (simp add: two_threads_def zero_entry_def)

lemma add_mask_clear:
  fixes a b :: u64
  assumes "a AND b = 0"
  shows "(a + b) AND NOT b = a"
proof -
  have d: "\<not> bit a n \<or> \<not> bit b n" for n
    using assms bit_and_iff[of a b n] by simp
  have "a + b = a OR b" by (rule disjunctive_add) (rule d)
  moreover have "(a OR b) AND NOT b = a"
    by (rule bit_word_eqI) (use d in \<open>auto simp: bit_and_iff bit_or_iff bit_not_iff\<close>)
  ultimately show ?thesis by simp
qed

lemma PAGE_ALIGN_aligned: "a AND 0xFFF = 0 \<Longrightarrow> PAGE_ALIGN a = a"
  using add_mask_clear[of a "0xFFF"] by (simp add: PAGE_ALIGN_def PAGE_SIZE_def)

text \<open>
  C38: when the user status array starts exactly at a page boundary, the page that is
  mapped is the one before it: the recorded offset is a whole page, and no record at all is
  inside the mapping.
\<close>

theorem aligned_status_maps_wrong_page:
  assumes "a AND 0xFFF = 0"
  shows "user_page_addr a = a - 4096 \<and> page_offset a = 4096 \<and>
     \<not> lowest_clock_mapped (unat (page_offset a)) i"
proof -
  have u: "user_page_addr a = a - 4096"
    by (simp add: user_page_addr_def PAGE_ALIGN_aligned[OF assms] PAGE_SIZE_def)
  moreover have "page_offset a = 4096" by (simp add: page_offset_def u)
  ultimately show ?thesis by (simp add: lowest_clock_mapped_def PAGE_SIZE_def)
qed

theorem aligned_status_maps_wrong_page_witness:
  "page_offset 0x7f0000003000 = 4096"
  using aligned_status_maps_wrong_page[of "0x7f0000003000"] by simp

end
