(* ===== verification/Perf_Event.thy ===== *)
theory Perf_Event
  imports TC_Prelude
begin

unbundle bit_operations_syntax

text \<open>
  \<open>src/src/lib/determ_perf_event.h\<close>, the copy of the kernel's header through which the library
  and the kernel agree on numbers and layouts: event types and ids, the bits that select what a
  sample holds, the attributes of an event, the requests on its descriptor, the page that the
  kernel writes and the header of its records. What the header only describes in comments, the
  bodies of the records and the layout of what \<open>read\<close> returns, is not code and is left out. An enumeration is a datatype with its values; a union is one field.
\<close>

subsection \<open>The layout of a struct\<close>

text \<open>
  A field is given by the size of its element, which is also its alignment, and the number of
  elements. Fields follow one another, each at the next multiple of its alignment.
\<close>

definition align_up :: "nat \<Rightarrow> nat \<Rightarrow> nat" where
  "align_up n a = (n + a - 1) div a * a"

fun field_offsets :: "nat \<Rightarrow> (nat \<times> nat) list \<Rightarrow> nat list" where
  "field_offsets p [] = [p]"
| "field_offsets p ((sz, n) # fs) =
     (let q = align_up p sz in q # field_offsets (q + sz * n) fs)"

definition struct_size :: "(nat \<times> nat) list \<Rightarrow> nat" where
  "struct_size fs = align_up (last (field_offsets 0 fs)) (fold max (map fst fs) 1)"

lemma align_up_le: "0 < a \<Longrightarrow> n \<le> align_up n a"
  using dividend_less_times_div[of a "n + a - 1"] by (auto simp: align_up_def mult.commute)

lemma align_up_dvd: "a dvd align_up n a"
  by (simp add: align_up_def)

text \<open>Fields do not overlap: each starts at or after the end of the one before.\<close>

lemma field_offsets_mono:
  assumes "\<forall>f\<in>set fs. 0 < fst f"
  shows "\<forall>q\<in>set (field_offsets p fs). p \<le> q"
  using assms
proof (induction fs arbitrary: p)
  case (Cons f fs)
  obtain sz n where f: "f = (sz, n)" by (cases f)
  with Cons.prems have "p \<le> align_up p sz" by (simp add: align_up_le)
  moreover have "\<forall>q\<in>set (field_offsets (align_up p sz + sz * n) fs). align_up p sz + sz * n \<le> q"
    using Cons by simp
  ultimately show ?case by (force simp: f Let_def)
qed simp

subsection \<open>Event types and ids\<close>

datatype perf_type_id = PERF_TYPE_HARDWARE | PERF_TYPE_SOFTWARE | PERF_TYPE_TRACEPOINT
  | PERF_TYPE_HW_CACHE | PERF_TYPE_RAW | PERF_TYPE_BREAKPOINT | PERF_TYPE_MAX

fun perf_type_code :: "perf_type_id \<Rightarrow> u32" where
  "perf_type_code PERF_TYPE_HARDWARE = 0"
| "perf_type_code PERF_TYPE_SOFTWARE = 1"
| "perf_type_code PERF_TYPE_TRACEPOINT = 2"
| "perf_type_code PERF_TYPE_HW_CACHE = 3"
| "perf_type_code PERF_TYPE_RAW = 4"
| "perf_type_code PERF_TYPE_BREAKPOINT = 5"
| "perf_type_code PERF_TYPE_MAX = 6"

datatype perf_hw_id =
    PERF_COUNT_HW_CPU_CYCLES | PERF_COUNT_HW_INSTRUCTIONS
    | PERF_COUNT_HW_CACHE_REFERENCES | PERF_COUNT_HW_CACHE_MISSES
    | PERF_COUNT_HW_BRANCH_INSTRUCTIONS | PERF_COUNT_HW_BRANCH_MISSES
    | PERF_COUNT_HW_BUS_CYCLES | PERF_COUNT_HW_STALLED_CYCLES_FRONTEND
    | PERF_COUNT_HW_STALLED_CYCLES_BACKEND | PERF_COUNT_HW_REF_CPU_CYCLES
    | PERF_COUNT_HW_MAX

fun perf_hw_code :: "perf_hw_id \<Rightarrow> u64" where
  "perf_hw_code PERF_COUNT_HW_CPU_CYCLES = 0"
| "perf_hw_code PERF_COUNT_HW_INSTRUCTIONS = 1"
| "perf_hw_code PERF_COUNT_HW_CACHE_REFERENCES = 2"
| "perf_hw_code PERF_COUNT_HW_CACHE_MISSES = 3"
| "perf_hw_code PERF_COUNT_HW_BRANCH_INSTRUCTIONS = 4"
| "perf_hw_code PERF_COUNT_HW_BRANCH_MISSES = 5"
| "perf_hw_code PERF_COUNT_HW_BUS_CYCLES = 6"
| "perf_hw_code PERF_COUNT_HW_STALLED_CYCLES_FRONTEND = 7"
| "perf_hw_code PERF_COUNT_HW_STALLED_CYCLES_BACKEND = 8"
| "perf_hw_code PERF_COUNT_HW_REF_CPU_CYCLES = 9"
| "perf_hw_code PERF_COUNT_HW_MAX = 10"

datatype perf_hw_cache_id =
    PERF_COUNT_HW_CACHE_L1D | PERF_COUNT_HW_CACHE_L1I | PERF_COUNT_HW_CACHE_LL
    | PERF_COUNT_HW_CACHE_DTLB | PERF_COUNT_HW_CACHE_ITLB | PERF_COUNT_HW_CACHE_BPU
    | PERF_COUNT_HW_CACHE_NODE | PERF_COUNT_HW_CACHE_MAX

fun perf_hw_cache_code :: "perf_hw_cache_id \<Rightarrow> u64" where
  "perf_hw_cache_code PERF_COUNT_HW_CACHE_L1D = 0"
| "perf_hw_cache_code PERF_COUNT_HW_CACHE_L1I = 1"
| "perf_hw_cache_code PERF_COUNT_HW_CACHE_LL = 2"
| "perf_hw_cache_code PERF_COUNT_HW_CACHE_DTLB = 3"
| "perf_hw_cache_code PERF_COUNT_HW_CACHE_ITLB = 4"
| "perf_hw_cache_code PERF_COUNT_HW_CACHE_BPU = 5"
| "perf_hw_cache_code PERF_COUNT_HW_CACHE_NODE = 6"
| "perf_hw_cache_code PERF_COUNT_HW_CACHE_MAX = 7"

datatype perf_hw_cache_op_id =
    PERF_COUNT_HW_CACHE_OP_READ | PERF_COUNT_HW_CACHE_OP_WRITE
    | PERF_COUNT_HW_CACHE_OP_PREFETCH | PERF_COUNT_HW_CACHE_OP_MAX

fun perf_hw_cache_op_code :: "perf_hw_cache_op_id \<Rightarrow> u64" where
  "perf_hw_cache_op_code PERF_COUNT_HW_CACHE_OP_READ = 0"
| "perf_hw_cache_op_code PERF_COUNT_HW_CACHE_OP_WRITE = 1"
| "perf_hw_cache_op_code PERF_COUNT_HW_CACHE_OP_PREFETCH = 2"
| "perf_hw_cache_op_code PERF_COUNT_HW_CACHE_OP_MAX = 3"

datatype perf_hw_cache_op_result_id =
    PERF_COUNT_HW_CACHE_RESULT_ACCESS | PERF_COUNT_HW_CACHE_RESULT_MISS
    | PERF_COUNT_HW_CACHE_RESULT_MAX

fun perf_hw_cache_op_result_code :: "perf_hw_cache_op_result_id \<Rightarrow> u64" where
  "perf_hw_cache_op_result_code PERF_COUNT_HW_CACHE_RESULT_ACCESS = 0"
| "perf_hw_cache_op_result_code PERF_COUNT_HW_CACHE_RESULT_MISS = 1"
| "perf_hw_cache_op_result_code PERF_COUNT_HW_CACHE_RESULT_MAX = 2"

datatype perf_sw_ids =
    PERF_COUNT_SW_CPU_CLOCK | PERF_COUNT_SW_TASK_CLOCK | PERF_COUNT_SW_PAGE_FAULTS
    | PERF_COUNT_SW_CONTEXT_SWITCHES | PERF_COUNT_SW_CPU_MIGRATIONS
    | PERF_COUNT_SW_PAGE_FAULTS_MIN | PERF_COUNT_SW_PAGE_FAULTS_MAJ
    | PERF_COUNT_SW_ALIGNMENT_FAULTS | PERF_COUNT_SW_EMULATION_FAULTS
    | PERF_COUNT_SW_MAX

fun perf_sw_code :: "perf_sw_ids \<Rightarrow> u64" where
  "perf_sw_code PERF_COUNT_SW_CPU_CLOCK = 0"
| "perf_sw_code PERF_COUNT_SW_TASK_CLOCK = 1"
| "perf_sw_code PERF_COUNT_SW_PAGE_FAULTS = 2"
| "perf_sw_code PERF_COUNT_SW_CONTEXT_SWITCHES = 3"
| "perf_sw_code PERF_COUNT_SW_CPU_MIGRATIONS = 4"
| "perf_sw_code PERF_COUNT_SW_PAGE_FAULTS_MIN = 5"
| "perf_sw_code PERF_COUNT_SW_PAGE_FAULTS_MAJ = 6"
| "perf_sw_code PERF_COUNT_SW_ALIGNMENT_FAULTS = 7"
| "perf_sw_code PERF_COUNT_SW_EMULATION_FAULTS = 8"
| "perf_sw_code PERF_COUNT_SW_MAX = 9"

subsection \<open>Samples and reads\<close>

datatype perf_event_sample_format =
    PERF_SAMPLE_IP | PERF_SAMPLE_TID | PERF_SAMPLE_TIME | PERF_SAMPLE_ADDR
    | PERF_SAMPLE_READ | PERF_SAMPLE_CALLCHAIN | PERF_SAMPLE_ID | PERF_SAMPLE_CPU
    | PERF_SAMPLE_PERIOD | PERF_SAMPLE_STREAM_ID | PERF_SAMPLE_RAW
    | PERF_SAMPLE_BRANCH_STACK | PERF_SAMPLE_MAX

fun sample_format_bit :: "perf_event_sample_format \<Rightarrow> u32" where
  "sample_format_bit PERF_SAMPLE_IP = push_bit 0 1"
| "sample_format_bit PERF_SAMPLE_TID = push_bit 1 1"
| "sample_format_bit PERF_SAMPLE_TIME = push_bit 2 1"
| "sample_format_bit PERF_SAMPLE_ADDR = push_bit 3 1"
| "sample_format_bit PERF_SAMPLE_READ = push_bit 4 1"
| "sample_format_bit PERF_SAMPLE_CALLCHAIN = push_bit 5 1"
| "sample_format_bit PERF_SAMPLE_ID = push_bit 6 1"
| "sample_format_bit PERF_SAMPLE_CPU = push_bit 7 1"
| "sample_format_bit PERF_SAMPLE_PERIOD = push_bit 8 1"
| "sample_format_bit PERF_SAMPLE_STREAM_ID = push_bit 9 1"
| "sample_format_bit PERF_SAMPLE_RAW = push_bit 10 1"
| "sample_format_bit PERF_SAMPLE_BRANCH_STACK = push_bit 11 1"
| "sample_format_bit PERF_SAMPLE_MAX = push_bit 12 1"

datatype perf_branch_sample_type =
    PERF_SAMPLE_BRANCH_USER | PERF_SAMPLE_BRANCH_KERNEL | PERF_SAMPLE_BRANCH_HV
    | PERF_SAMPLE_BRANCH_ANY | PERF_SAMPLE_BRANCH_ANY_CALL
    | PERF_SAMPLE_BRANCH_ANY_RETURN | PERF_SAMPLE_BRANCH_IND_CALL
    | PERF_SAMPLE_BRANCH_MAX

fun branch_sample_bit :: "perf_branch_sample_type \<Rightarrow> u32" where
  "branch_sample_bit PERF_SAMPLE_BRANCH_USER = push_bit 0 1"
| "branch_sample_bit PERF_SAMPLE_BRANCH_KERNEL = push_bit 1 1"
| "branch_sample_bit PERF_SAMPLE_BRANCH_HV = push_bit 2 1"
| "branch_sample_bit PERF_SAMPLE_BRANCH_ANY = push_bit 3 1"
| "branch_sample_bit PERF_SAMPLE_BRANCH_ANY_CALL = push_bit 4 1"
| "branch_sample_bit PERF_SAMPLE_BRANCH_ANY_RETURN = push_bit 5 1"
| "branch_sample_bit PERF_SAMPLE_BRANCH_IND_CALL = push_bit 6 1"
| "branch_sample_bit PERF_SAMPLE_BRANCH_MAX = push_bit 7 1"

definition PERF_SAMPLE_BRANCH_PLM_ALL :: u32 where
  "PERF_SAMPLE_BRANCH_PLM_ALL = branch_sample_bit PERF_SAMPLE_BRANCH_USER OR
     branch_sample_bit PERF_SAMPLE_BRANCH_KERNEL OR branch_sample_bit PERF_SAMPLE_BRANCH_HV"

datatype perf_event_read_format =
    PERF_FORMAT_TOTAL_TIME_ENABLED | PERF_FORMAT_TOTAL_TIME_RUNNING | PERF_FORMAT_ID
    | PERF_FORMAT_GROUP | PERF_FORMAT_MAX

fun read_format_bit :: "perf_event_read_format \<Rightarrow> u32" where
  "read_format_bit PERF_FORMAT_TOTAL_TIME_ENABLED = push_bit 0 1"
| "read_format_bit PERF_FORMAT_TOTAL_TIME_RUNNING = push_bit 1 1"
| "read_format_bit PERF_FORMAT_ID = push_bit 2 1"
| "read_format_bit PERF_FORMAT_GROUP = push_bit 3 1"
| "read_format_bit PERF_FORMAT_MAX = push_bit 4 1"

text \<open>Different bits are disjoint, so a mask says which of them were asked for.\<close>

lemma sample_format_bit_disjoint: "a \<noteq> b \<Longrightarrow> sample_format_bit a AND sample_format_bit b = 0"
  by (cases a; cases b; simp add: push_bit_eq_mult)

lemma branch_sample_bit_disjoint: "a \<noteq> b \<Longrightarrow> branch_sample_bit a AND branch_sample_bit b = 0"
  by (cases a; cases b; simp add: push_bit_eq_mult)

lemma read_format_bit_disjoint: "a \<noteq> b \<Longrightarrow> read_format_bit a AND read_format_bit b = 0"
  by (cases a; cases b; simp add: push_bit_eq_mult)

subsection \<open>The attributes of an event\<close>

text \<open>The two members of each union share one field here.\<close>

record perf_event_attr =
  pa_type :: u32
  pa_size :: u32
  pa_config :: u64
  pa_sample_period :: u64
  pa_sample_type :: u64
  pa_read_format :: u64
  pa_disabled :: bool
  pa_inherit :: bool
  pa_pinned :: bool
  pa_exclusive :: bool
  pa_exclude_user :: bool
  pa_exclude_kernel :: bool
  pa_exclude_hv :: bool
  pa_exclude_idle :: bool
  pa_mmap :: bool
  pa_comm :: bool
  pa_freq :: bool
  pa_inherit_stat :: bool
  pa_enable_on_exec :: bool
  pa_task :: bool
  pa_watermark :: bool
  pa_precise_ip :: "2 word"
  pa_mmap_data :: bool
  pa_sample_id_all :: bool
  pa_exclude_host :: bool
  pa_exclude_guest :: bool
  pa_task_clock :: bool
  pa_reserved_1 :: "42 word"
  pa_wakeup_events :: u32
  pa_bp_type :: u32
  pa_config1 :: u64
  pa_config2 :: u64
  pa_branch_sample_type :: u64

definition zero_perf_event_attr :: perf_event_attr where
  "zero_perf_event_attr =
     \<lparr>pa_type = 0, pa_size = 0, pa_config = 0, pa_sample_period = 0, pa_sample_type = 0,
      pa_read_format = 0, pa_disabled = False, pa_inherit = False, pa_pinned = False,
      pa_exclusive = False, pa_exclude_user = False, pa_exclude_kernel = False,
      pa_exclude_hv = False, pa_exclude_idle = False, pa_mmap = False, pa_comm = False,
      pa_freq = False, pa_inherit_stat = False, pa_enable_on_exec = False, pa_task = False,
      pa_watermark = False, pa_precise_ip = 0, pa_mmap_data = False, pa_sample_id_all = False,
      pa_exclude_host = False, pa_exclude_guest = False, pa_task_clock = False,
      pa_reserved_1 = 0, pa_wakeup_events = 0, pa_bp_type = 0, pa_config1 = 0,
      pa_config2 = 0, pa_branch_sample_type = 0\<rparr>"

definition PERF_ATTR_SIZE_VER0 :: nat where "PERF_ATTR_SIZE_VER0 = 64"
definition PERF_ATTR_SIZE_VER1 :: nat where "PERF_ATTR_SIZE_VER1 = 72"
definition sizeof_perf_event_attr :: u32 where "sizeof_perf_event_attr = 80"

text \<open>
  The 64-bit word that follows \<open>read_format\<close>: the bit fields, the first one in the lowest bit.
\<close>

definition flag_bits :: "perf_event_attr \<Rightarrow> bool list" where
  "flag_bits a =
     [pa_disabled a, pa_inherit a, pa_pinned a, pa_exclusive a, pa_exclude_user a, pa_exclude_kernel a,
      pa_exclude_hv a, pa_exclude_idle a, pa_mmap a, pa_comm a, pa_freq a, pa_inherit_stat a,
      pa_enable_on_exec a, pa_task a, pa_watermark a] @ map (bit (pa_precise_ip a)) [0..<2] @
     [pa_mmap_data a, pa_sample_id_all a, pa_exclude_host a, pa_exclude_guest a, pa_task_clock a] @
     map (bit (pa_reserved_1 a)) [0..<42]"

definition perf_flags :: "perf_event_attr \<Rightarrow> u64" where
  "perf_flags a = horner_sum of_bool 2 (flag_bits a)"

text \<open>The bit fields fill the word exactly, so nothing of them is lost in it.\<close>

lemma length_flag_bits: "length (flag_bits a) = 64"
  by (simp add: flag_bits_def)

lemma bit_perf_flags: "n < 64 \<Longrightarrow> bit (perf_flags a) n = flag_bits a ! n"
  by (simp add: perf_flags_def bit_horner_sum_bit_word_iff length_flag_bits)

lemma perf_flags_eq_iff: "perf_flags a = perf_flags b \<longleftrightarrow> flag_bits a = flag_bits b"
proof
  assume "perf_flags a = perf_flags b"
  then show "flag_bits a = flag_bits b"
    by (intro nth_equalityI) (simp_all add: length_flag_bits flip: bit_perf_flags)
qed (simp add: perf_flags_def)

definition perf_event_attr_fields :: "(nat \<times> nat) list" where
  "perf_event_attr_fields =
     [(4, 1), (4, 1), (8, 1), (8, 1), (8, 1), (8, 1), (8, 1), (4, 1), (4, 1), (8, 1), (8, 1), (8, 1)]"

lemmas layout_defs = struct_size_def align_up_def perf_event_attr_fields_def Let_def

text \<open>The three published sizes are those of the struct up to the fields that each version added.\<close>

lemma perf_event_attr_sizes:
  "struct_size perf_event_attr_fields = unat sizeof_perf_event_attr"
  "struct_size (butlast perf_event_attr_fields) = PERF_ATTR_SIZE_VER1"
  "struct_size (butlast (butlast perf_event_attr_fields)) = PERF_ATTR_SIZE_VER0"
  by (simp_all add: layout_defs sizeof_perf_event_attr_def PERF_ATTR_SIZE_VER1_def PERF_ATTR_SIZE_VER0_def)

subsection \<open>Requests on the descriptor\<close>

text \<open>The requests on the descriptor, and the numbers they have.\<close>

datatype perf_event_ioc =
  IOC_ENABLE | IOC_DISABLE | IOC_REFRESH | IOC_RESET | IOC_PERIOD | IOC_SET_OUTPUT
  | IOC_SET_FILTER | IOC_TASK_CLOCK_HALT | IOC_TASK_CLOCK_ACTIVATE
  | IOC_TASK_CLOCK_ACTIVATE_OTHER | IOC_TASK_CLOCK_WAIT | IOC_TASK_CLOCK_SLEEP
  | IOC_TASK_CLOCK_ADD_TICKS | IOC_TASK_CLOCK_WOKE_UP | IOC_TASK_CLOCK_STOP
  | IOC_TASK_CLOCK_START | IOC_TASK_CLOCK_RESET | IOC_TASK_CLOCK_STOP_NO_NOTIFY
  | IOC_TASK_CLOCK_START_NO_NOTIFY

text \<open>Linux's \<open>_IO\<close> and \<open>_IOW\<close>: direction, size, type (the character \<open>$\<close>) and number.\<close>

definition ioc_number :: "u32 \<Rightarrow> u32 \<Rightarrow> u32 \<Rightarrow> u32" where
  "ioc_number dir sz nr = push_bit 30 dir + push_bit 16 sz + push_bit 8 0x24 + nr"

fun perf_event_ioc_code :: "perf_event_ioc \<Rightarrow> u32" where
  "perf_event_ioc_code IOC_ENABLE = ioc_number 0 0 0"
| "perf_event_ioc_code IOC_DISABLE = ioc_number 0 0 1"
| "perf_event_ioc_code IOC_REFRESH = ioc_number 0 0 2"
| "perf_event_ioc_code IOC_RESET = ioc_number 0 0 3"
| "perf_event_ioc_code IOC_PERIOD = ioc_number 1 8 4"
| "perf_event_ioc_code IOC_SET_OUTPUT = ioc_number 0 0 5"
| "perf_event_ioc_code IOC_SET_FILTER = ioc_number 1 8 6"
| "perf_event_ioc_code IOC_TASK_CLOCK_HALT = ioc_number 0 0 7"
| "perf_event_ioc_code IOC_TASK_CLOCK_ACTIVATE = ioc_number 0 0 8"
| "perf_event_ioc_code IOC_TASK_CLOCK_ACTIVATE_OTHER = ioc_number 0 0 9"
| "perf_event_ioc_code IOC_TASK_CLOCK_WAIT = ioc_number 0 0 10"
| "perf_event_ioc_code IOC_TASK_CLOCK_SLEEP = ioc_number 0 0 11"
| "perf_event_ioc_code IOC_TASK_CLOCK_ADD_TICKS = ioc_number 0 0 12"
| "perf_event_ioc_code IOC_TASK_CLOCK_WOKE_UP = ioc_number 0 0 13"
| "perf_event_ioc_code IOC_TASK_CLOCK_STOP = ioc_number 0 0 14"
| "perf_event_ioc_code IOC_TASK_CLOCK_START = ioc_number 0 0 15"
| "perf_event_ioc_code IOC_TASK_CLOCK_RESET = ioc_number 0 0 16"
| "perf_event_ioc_code IOC_TASK_CLOCK_STOP_NO_NOTIFY = ioc_number 0 0 17"
| "perf_event_ioc_code IOC_TASK_CLOCK_START_NO_NOTIFY = ioc_number 0 0 18"

text \<open>No two requests share a number, so a request can stand for its number.\<close>

lemma perf_event_ioc_code_inj: "perf_event_ioc_code a = perf_event_ioc_code b \<longleftrightarrow> a = b"
  by (cases a; cases b; simp add: ioc_number_def push_bit_eq_mult)

definition PERF_IOC_FLAG_GROUP :: u32 where "PERF_IOC_FLAG_GROUP = push_bit 0 1"

subsection \<open>The mapped page\<close>

text \<open>The union of \<open>capabilities\<close> with its bits is one field.\<close>

record perf_event_mmap_page =
  mp_version :: u32
  mp_compat_version :: u32
  mp_lock :: u32
  mp_index :: u32
  mp_offset :: "64 word"
  mp_time_enabled :: u64
  mp_time_running :: u64
  mp_capabilities :: u64
  mp_pmc_width :: "16 word"
  mp_time_shift :: "16 word"
  mp_time_mult :: u32
  mp_time_offset :: u64
  mp_reserved :: "u64 list"
  mp_data_head :: u64
  mp_data_tail :: u64

definition cap_usr_time :: "perf_event_mmap_page \<Rightarrow> bool" where
  "cap_usr_time p = bit (mp_capabilities p) 0"

definition cap_usr_rdpmc :: "perf_event_mmap_page \<Rightarrow> bool" where
  "cap_usr_rdpmc p = bit (mp_capabilities p) 1"

definition mmap_page_fields :: "(nat \<times> nat) list" where
  "mmap_page_fields = [(4, 1), (4, 1), (4, 1), (4, 1), (8, 1), (8, 1), (8, 1), (8, 1), (2, 1), (2, 1), (4, 1),
     (8, 1), (8, 120), (8, 1), (8, 1)]"

text \<open>As the header's comment says, the control data of the buffer start at 1k.\<close>

lemma mmap_page_data_head: "field_offsets 0 mmap_page_fields ! 13 = 1024"
  by code_simp

subsection \<open>The records in the buffer\<close>

record perf_event_header =
  eh_type :: u32
  eh_misc :: "16 word"
  eh_size :: "16 word"

definition PERF_RECORD_MISC_CPUMODE_MASK :: "16 word" where "PERF_RECORD_MISC_CPUMODE_MASK = push_bit 0 7"

datatype perf_record_cpumode =
    PERF_RECORD_MISC_CPUMODE_UNKNOWN | PERF_RECORD_MISC_KERNEL | PERF_RECORD_MISC_USER
    | PERF_RECORD_MISC_HYPERVISOR | PERF_RECORD_MISC_GUEST_KERNEL
    | PERF_RECORD_MISC_GUEST_USER

fun cpumode_code :: "perf_record_cpumode \<Rightarrow> 16 word" where
  "cpumode_code PERF_RECORD_MISC_CPUMODE_UNKNOWN = push_bit 0 0"
| "cpumode_code PERF_RECORD_MISC_KERNEL = push_bit 0 1"
| "cpumode_code PERF_RECORD_MISC_USER = push_bit 0 2"
| "cpumode_code PERF_RECORD_MISC_HYPERVISOR = push_bit 0 3"
| "cpumode_code PERF_RECORD_MISC_GUEST_KERNEL = push_bit 0 4"
| "cpumode_code PERF_RECORD_MISC_GUEST_USER = push_bit 0 5"

definition PERF_RECORD_MISC_EXACT_IP :: "16 word" where "PERF_RECORD_MISC_EXACT_IP = push_bit 14 1"
definition PERF_RECORD_MISC_EXT_RESERVED :: "16 word" where "PERF_RECORD_MISC_EXT_RESERVED = push_bit 15 1"

text \<open>The mode is read off the field through the mask, whatever the two other bits are.\<close>

lemma cpumode_masked:
  "(cpumode_code m OR PERF_RECORD_MISC_EXACT_IP OR PERF_RECORD_MISC_EXT_RESERVED) AND
     PERF_RECORD_MISC_CPUMODE_MASK = cpumode_code m"
  by (cases m; simp add: PERF_RECORD_MISC_EXACT_IP_def PERF_RECORD_MISC_EXT_RESERVED_def
      PERF_RECORD_MISC_CPUMODE_MASK_def push_bit_eq_mult)

datatype perf_event_type =
    PERF_RECORD_MMAP | PERF_RECORD_LOST | PERF_RECORD_COMM | PERF_RECORD_EXIT
    | PERF_RECORD_THROTTLE | PERF_RECORD_UNTHROTTLE | PERF_RECORD_FORK
    | PERF_RECORD_READ | PERF_RECORD_SAMPLE | PERF_RECORD_MAX

fun perf_event_type_code :: "perf_event_type \<Rightarrow> u32" where
  "perf_event_type_code PERF_RECORD_MMAP = 1"
| "perf_event_type_code PERF_RECORD_LOST = 2"
| "perf_event_type_code PERF_RECORD_COMM = 3"
| "perf_event_type_code PERF_RECORD_EXIT = 4"
| "perf_event_type_code PERF_RECORD_THROTTLE = 5"
| "perf_event_type_code PERF_RECORD_UNTHROTTLE = 6"
| "perf_event_type_code PERF_RECORD_FORK = 7"
| "perf_event_type_code PERF_RECORD_READ = 8"
| "perf_event_type_code PERF_RECORD_SAMPLE = 9"
| "perf_event_type_code PERF_RECORD_MAX = 10"

definition PERF_MAX_STACK_DEPTH :: nat where "PERF_MAX_STACK_DEPTH = 127"

datatype perf_callchain_context =
    PERF_CONTEXT_HV | PERF_CONTEXT_KERNEL | PERF_CONTEXT_USER | PERF_CONTEXT_GUEST
    | PERF_CONTEXT_GUEST_KERNEL | PERF_CONTEXT_GUEST_USER | PERF_CONTEXT_MAX

fun callchain_context_code :: "perf_callchain_context \<Rightarrow> u64" where
  "callchain_context_code PERF_CONTEXT_HV = - 32"
| "callchain_context_code PERF_CONTEXT_KERNEL = - 128"
| "callchain_context_code PERF_CONTEXT_USER = - 512"
| "callchain_context_code PERF_CONTEXT_GUEST = - 2048"
| "callchain_context_code PERF_CONTEXT_GUEST_KERNEL = - 2176"
| "callchain_context_code PERF_CONTEXT_GUEST_USER = - 2560"
| "callchain_context_code PERF_CONTEXT_MAX = - 4095"

text \<open>The markers lie in the last 4095 addresses, where no instruction pointer does.\<close>

lemma callchain_context_high: "- 4095 \<le> callchain_context_code c"
  by (cases c) (simp_all add: word_le_nat_alt)

definition PERF_FLAG_FD_NO_GROUP :: u32 where "PERF_FLAG_FD_NO_GROUP = push_bit 0 1"
definition PERF_FLAG_FD_OUTPUT :: u32 where "PERF_FLAG_FD_OUTPUT = push_bit 1 1"
definition PERF_FLAG_PID_CGROUP :: u32 where "PERF_FLAG_PID_CGROUP = push_bit 2 1"

end
