(* ===== verification/Perf_Counter.thy ===== *)
theory Perf_Counter
  imports Perf_Event
begin

text \<open>
  \<open>src/src/lib/perf_counter.h\<close> and \<open>.c\<close>: opening, starting, stopping and closing the performance counter whose
  file descriptor carries all requests to the kernel module. The operating system is a
  parameter: a record of the calls the library makes, over a state \<open>'s\<close> of everything outside
  the process.
\<close>

subsection \<open>The operating system\<close>

text \<open>
  \<open>sys_ioctl\<close> takes the descriptor, the request and the low 32 bits of the argument (all that the
  callers pass); a call into the kernel may stop there, otherwise it returns a status.
  \<open>sys_mmap\<close> is given the length and the descriptor and returns the address, \<open>-1\<close>
  (\<open>MAP_FAILED\<close>) for a failure.
\<close>

record 's os =
  lib_no_instruction_counting :: bool
  sys_ioctl :: "int \<Rightarrow> perf_event_ioc \<Rightarrow> u32 \<Rightarrow> 's \<Rightarrow> ('s \<times> int) result"
  sys_perf_event_open :: "perf_event_attr \<Rightarrow> int \<Rightarrow> int \<Rightarrow> int \<Rightarrow> u64 \<Rightarrow> 's \<Rightarrow> 's \<times> int"
  sys_mmap :: "nat \<Rightarrow> int \<Rightarrow> 's \<Rightarrow> 's \<times> u64"
  sys_close :: "int \<Rightarrow> 's \<Rightarrow> 's"
  sys_getpid :: "'s \<Rightarrow> int"

definition MAP_FAILED :: u64 where "MAP_FAILED = - 1"
definition perf_PAGE_SIZE :: nat where "perf_PAGE_SIZE = 4096"

text \<open>A request whose failure ends the process.\<close>

definition ioctl_or_exit ::
  "('s, 'b) os_scheme \<Rightarrow> int \<Rightarrow> perf_event_ioc \<Rightarrow> u32 \<Rightarrow> 's \<Rightarrow> 's result" where
  "ioctl_or_exit os fd req arg s =
     bindE (sys_ioctl os fd req arg s) (\<lambda>(s, r). if r \<noteq> 0 then Inl Exit else Inr s)"

subsection \<open>The counter\<close>

text \<open>A sample in the ring buffer; one that has been read is marked with the magic number.\<close>

definition PERF_MAGIC_NUMBER :: u32 where "PERF_MAGIC_NUMBER = 0xDEAD"

record perf_mmap_sample =
  ms_header :: perf_event_header
  ms_ip :: u64
  ms_pid :: u32
  ms_tid :: u32
  ms_time :: u64
  ms_addr :: u64

record perf_counter_info =
  pci_pid :: int
  pci_fd :: int
  ring_buffer :: u64
  ring_buffer_current :: u64
  started :: bool

definition perf_event_open ::
  "('s, 'b) os_scheme \<Rightarrow> perf_event_attr \<Rightarrow> int \<Rightarrow> int \<Rightarrow> int \<Rightarrow> u64 \<Rightarrow> 's \<Rightarrow> 's \<times> int" where
  "perf_event_open os hw_event pid cpu group_fd flags s =
     sys_perf_event_open os hw_event pid cpu group_fd flags s"

definition perf_counter_attr :: "u32 \<Rightarrow> perf_event_attr" where
  "perf_counter_attr sample_period =
     zero_perf_event_attr\<lparr>pa_type := perf_type_code PERF_TYPE_RAW, pa_size := sizeof_perf_event_attr,
       pa_config := 0x0C0, pa_disabled := True, pa_exclude_kernel := True, pa_exclude_hv := True,
       pa_sample_period := ucast sample_period, pa_task_clock := True\<rparr>"

text \<open>
  In the flags word the bits of \<open>disabled\<close>, \<open>exclude_kernel\<close>, \<open>exclude_hv\<close> and \<open>task_clock\<close> are set.
\<close>

lemma perf_counter_flags: "perf_flags (perf_counter_attr n) = 0x200061"
  by code_simp

definition perf_counter_init ::
  "('s, 'b) os_scheme \<Rightarrow> u32 \<Rightarrow> int \<Rightarrow> perf_counter_info \<Rightarrow> 's \<Rightarrow> (perf_counter_info \<times> 's) result" where
  "perf_counter_init os sample_period group_fd pci s =
     (case perf_event_open os (perf_counter_attr sample_period) 0 (- 1) group_fd 0 s of
        (s, fd) \<Rightarrow>
          if fd = -1 then Inl Exit
          else case sys_mmap os (perf_PAGE_SIZE + perf_PAGE_SIZE * 64) fd s of
                 (s, mem) \<Rightarrow>
                   if mem = MAP_FAILED then Inl Exit
                   else Inr (pci\<lparr>pci_pid := sys_getpid os s, pci_fd := fd,
                        ring_buffer_current := mem + of_nat perf_PAGE_SIZE, ring_buffer := mem,
                        started := False\<rparr>, s))"

text \<open>\<open>PERF_EVENT_IOC_TASK_CLOCK_START\<close> and \<open>STOP\<close> are called without an argument; 0 stands for it.\<close>

definition perf_counter_start ::
  "('s, 'b) os_scheme \<Rightarrow> perf_counter_info \<Rightarrow> 's \<Rightarrow> (perf_counter_info \<times> 's) result" where
  "perf_counter_start os pci s =
     bindE (ioctl_or_exit os (pci_fd pci)
              (if lib_no_instruction_counting os then IOC_TASK_CLOCK_START else IOC_ENABLE) 0 s) (\<lambda>s.
     Inr (pci\<lparr>started := True\<rparr>, s))"

definition perf_counter_stop ::
  "('s, 'b) os_scheme \<Rightarrow> perf_counter_info \<Rightarrow> 's \<Rightarrow> (perf_counter_info \<times> 's) result" where
  "perf_counter_stop os pci s =
     bindE (ioctl_or_exit os (pci_fd pci)
              (if lib_no_instruction_counting os then IOC_TASK_CLOCK_STOP else IOC_DISABLE) 0 s) (\<lambda>s.
     Inr (pci\<lparr>started := False\<rparr>, s))"

definition perf_counter_close :: "('s, 'b) os_scheme \<Rightarrow> perf_counter_info \<Rightarrow> 's \<Rightarrow> 's result" where
  "perf_counter_close os pci s =
     bindE (ioctl_or_exit os (pci_fd pci) IOC_DISABLE 0 s) (\<lambda>s. Inr (sys_close os (pci_fd pci) s))"

lemma ioctl_or_exit_Inr:
  "ioctl_or_exit os fd req arg s = Inr s' \<longleftrightarrow> sys_ioctl os fd req arg s = Inr (s', 0)"
  by (auto simp: ioctl_or_exit_def split: if_splits)

end
