(* ===== verification/Float_Round.thy ===== *)
theory Float_Round
  imports TC_Prelude
begin

text \<open>
  The floating point arithmetic the user library uses, on non-negative values: rounding to
  \<open>p\<close> significant bits, half to even, as IEEE single (\<open>p = 24\<close>) and double (\<open>p = 53\<close>)
  precision do. A number is given as its numerator over a fixed power of two, and rounding to
  significant bits does not depend on that scale; no value here comes near the limits of the
  exponents.
\<close>

fun bit_count :: "nat \<Rightarrow> nat" where
  "bit_count n = (if n = 0 then 0 else Suc (bit_count (n div 2)))"

declare bit_count.simps [simp del]

definition round_half_even :: "nat \<Rightarrow> nat \<Rightarrow> nat" where
  "round_half_even e n =
     (let q = n div 2 ^ e; r = n mod 2 ^ e
      in if 2 * r > 2 ^ e \<or> 2 * r = 2 ^ e \<and> odd q then Suc q else q)"

definition fl_round :: "nat \<Rightarrow> nat \<Rightarrow> nat" where
  "fl_round p n =
     (let e = bit_count n - p in if e = 0 then n else round_half_even e n * 2 ^ e)"

lemma bit_count_lt: "n < 2 ^ bit_count n"
proof (induction n rule: bit_count.induct)
  case (1 n)
  show ?case
  proof (cases "n = 0")
    case False
    with 1 have "n div 2 < 2 ^ bit_count (n div 2)" by blast
    with False show ?thesis by (simp add: bit_count.simps[of n])
  qed simp
qed

lemma bit_count_ge: "0 < n \<Longrightarrow> 2 ^ (bit_count n - 1) \<le> n"
proof (induction n rule: bit_count.induct)
  case (1 n)
  show ?case
  proof (cases "n div 2 = 0")
    case True
    with 1(2) have "n = 1" by linarith
    then show ?thesis by (simp add: bit_count.simps[of "Suc 0"] bit_count.simps[of 0])
  next
    case False
    with 1 have "2 ^ (bit_count (n div 2) - 1) \<le> n div 2" by simp
    moreover have "0 < bit_count (n div 2)" using False by (simp add: bit_count.simps[of "n div 2"])
    ultimately have "2 ^ bit_count (n div 2) \<le> 2 * (n div 2)"
      by (cases "bit_count (n div 2)") auto
    with 1(2) show ?thesis by (simp add: bit_count.simps[of n])
  qed
qed

lemma bit_count_eqI:
  assumes "2 ^ k \<le> n" "n < 2 ^ Suc k"
  shows "bit_count n = Suc k"
proof -
  have "0 < n" using assms(1) by (metis gr0I not_le power_eq_0_iff zero_less_numeral zero_neq_numeral)
  then have "(2::nat) ^ (bit_count n - 1) < 2 ^ Suc k" using bit_count_ge[of n] assms(2) by linarith
  moreover have "(2::nat) ^ k < 2 ^ bit_count n" using bit_count_lt[of n] assms(1) by linarith
  ultimately have "bit_count n - 1 < Suc k" "k < bit_count n"
    by (simp_all only: power_strict_increasing_iff numeral_less_iff one_less_numeral_iff semiring_norm)
  then show ?thesis by simp
qed

lemma fl_round_exact: "n < 2 ^ p \<Longrightarrow> fl_round p n = n"
proof -
  assume "n < 2 ^ p"
  have "bit_count n \<le> p"
  proof (cases "n = 0")
    case False
    then have "2 ^ (bit_count n - 1) < (2::nat) ^ p"
      using bit_count_ge[of n] \<open>n < 2 ^ p\<close> by linarith
    then show ?thesis by (simp add: power_strict_increasing_iff)
  qed (simp add: bit_count.simps[of 0])
  then show ?thesis by (simp add: fl_round_def)
qed

lemma round_half_even_error:
  "2 * n \<le> 2 * (round_half_even e n * 2 ^ e) + 2 ^ e" "2 * (round_half_even e n * 2 ^ e) \<le> 2 * n + 2 ^ e"
proof -
  define q r where "q = n div 2 ^ e" and "r = n mod 2 ^ e"
  have n: "n = q * 2 ^ e + r" unfolding q_def r_def by (simp only: div_mult_mod_eq)
  have r: "r < 2 ^ e" by (simp add: r_def)
  have cs: "round_half_even e n = q \<and> 2 * r \<le> 2 ^ e \<or> round_half_even e n = Suc q \<and> 2 ^ e \<le> 2 * r"
    by (auto simp: round_half_even_def Let_def q_def r_def)
  show "2 * n \<le> 2 * (round_half_even e n * 2 ^ e) + 2 ^ e"
    using cs n r by auto
  show "2 * (round_half_even e n * 2 ^ e) \<le> 2 * n + 2 ^ e"
    using cs n r by auto
qed

text \<open>The relative error is at most half a unit in the last of \<open>p\<close> places.\<close>

lemma fl_round_error:
  assumes "0 < p"
  shows "2 ^ p * n \<le> 2 ^ p * fl_round p n + n" "2 ^ p * fl_round p n \<le> 2 ^ p * n + n"
proof -
  let ?e = "bit_count n - p"
  have both: "2 ^ p * n \<le> 2 ^ p * fl_round p n + n \<and> 2 ^ p * fl_round p n \<le> 2 ^ p * n + n"
  proof (cases "?e = 0")
    case True
    then show ?thesis by (simp add: fl_round_def)
  next
    case False
    then have "n \<noteq> 0" by (cases "n = 0") (simp_all add: bit_count.simps[of 0])
    then have "2 ^ (bit_count n - 1) \<le> n" using bit_count_ge by simp
    moreover have "bit_count n - 1 = (p - 1) + ?e" using False assms by simp
    ultimately have PE: "2 ^ (p - 1) * 2 ^ ?e \<le> n" by (simp add: power_add)
    have P: "(2::nat) ^ p = 2 ^ (p - 1) * 2" using assms by (simp add: power_eq_if)
    have f: "fl_round p n = round_half_even ?e n * 2 ^ ?e" using False by (simp add: fl_round_def Let_def)
    have "2 ^ (p - 1) * (2 * n) \<le> 2 ^ (p - 1) * (2 * fl_round p n + 2 ^ ?e)"
      "2 ^ (p - 1) * (2 * fl_round p n) \<le> 2 ^ (p - 1) * (2 * n + 2 ^ ?e)"
      unfolding f by (intro mult_le_mono2 round_half_even_error)+
    with PE show ?thesis unfolding P distrib_left mult.assoc by (intro conjI; linarith)
  qed
  show "2 ^ p * n \<le> 2 ^ p * fl_round p n + n" using both by blast
  show "2 ^ p * fl_round p n \<le> 2 ^ p * n + n" using both by blast
qed

text \<open>A multiple of \<open>2 ^ j\<close> below a number of at most \<open>p + j\<close> bits is not rounded over.\<close>

lemma fl_round_ge_multiple:
  assumes "m * 2 ^ j \<le> n" "n < 2 ^ (p + j)"
  shows "m * 2 ^ j \<le> fl_round p n"
proof (cases "bit_count n - p = 0")
  case True
  then show ?thesis using assms(1) by (simp add: fl_round_def)
next
  case False
  let ?e = "bit_count n - p"
  from False have "n \<noteq> 0" by (cases "n = 0") (simp_all add: bit_count.simps[of 0])
  then have "(2::nat) ^ (bit_count n - 1) < 2 ^ (p + j)"
    using bit_count_ge[of n] assms(2) by linarith
  then have "bit_count n - 1 < p + j" by (simp only: power_strict_increasing_iff one_less_numeral_iff semiring_norm)
  with False have e: "?e \<le> j" by linarith
  then have split: "m * 2 ^ j = m * 2 ^ (j - ?e) * 2 ^ ?e" by (simp add: power_add[symmetric])
  have "m * 2 ^ (j - ?e) \<le> n div 2 ^ ?e"
    using assms(1) unfolding split by (simp add: less_eq_div_iff_mult_less_eq)
  also have "\<dots> \<le> round_half_even ?e n" by (simp add: round_half_even_def Let_def)
  finally have "m * 2 ^ (j - ?e) * 2 ^ ?e \<le> round_half_even ?e n * 2 ^ ?e" by (rule mult_le_mono1)
  moreover have "fl_round p n = round_half_even ?e n * 2 ^ ?e" using False by (simp add: fl_round_def Let_def)
  ultimately show ?thesis using split by (simp only:)
qed

end
