(* ===== verification/Tx_Estimate.thy ===== *)
theory Tx_Estimate
  imports Float_Round
begin

text \<open>
  \<open>src/src/lib/tx_estimate.h\<close>: the estimate of the next transaction's length, an
  exponentially weighted average per transaction identifier and the mean deviation of the
  last observations from it. The average is computed in single precision: each operation is
  rounded to 24 significant bits, all values being multiples of \<open>2 ^ -26\<close> (the weight
  \<open>0.2F\<close> is \<open>13421773 * 2 ^ -26\<close>).
\<close>

unbundle bit_operations_syntax

subsection \<open>The data structure\<close>

definition TX_ESTIMATE_MIN_OBSERVATIONS :: u64 where "TX_ESTIMATE_MIN_OBSERVATIONS = 10"
definition TX_ESTIMATE_TOTAL_OBSERVATIONS :: nat where "TX_ESTIMATE_TOTAL_OBSERVATIONS = 10"
definition TX_ESTIMATE_TOTAL_ENTRIES :: nat where "TX_ESTIMATE_TOTAL_ENTRIES = 32"

definition FLOAT_UNIT :: nat where "FLOAT_UNIT = 2 ^ 26"
definition TX_ESTIMATE_EWMA_WEIGHT :: nat where "TX_ESTIMATE_EWMA_WEIGHT = 13421773"

record tx_estimate =
  ewma :: u64
  observations :: "nat \<Rightarrow> u64"
  tx_counter :: u64

type_synonym tx_estimator = "nat \<Rightarrow> tx_estimate"

definition tx_estimate_init :: tx_estimator where
  "tx_estimate_init = (\<lambda>_. \<lparr>ewma = 0, observations = (\<lambda>_. 0), tx_counter = 0\<rparr>)"

subsection \<open>The operations\<close>

text \<open>The index of an identifier's entry: 0 is kept for the identifier 0.\<close>

definition tx_get_entry :: "u64 \<Rightarrow> nat" where
  "tx_get_entry ident =
     (if ident \<noteq> 0
      then unat ((drop_bit 8 (ident AND 0xFF00) AND drop_bit 16 (ident AND 0xFF0000)) mod
                 of_nat (TX_ESTIMATE_TOTAL_ENTRIES - 1)) + 1
      else 0)"

definition float_of_u64 :: "u64 \<Rightarrow> nat" where
  "float_of_u64 x = fl_round 24 (unat x)"

definition ewma_float :: "u64 \<Rightarrow> u64 \<Rightarrow> nat" where
  "ewma_float ticks old =
     (let w = TX_ESTIMATE_EWMA_WEIGHT; v = fl_round 24 (FLOAT_UNIT - w)
      in fl_round 24 (fl_round 24 (float_of_u64 ticks * w) + fl_round 24 (v * float_of_u64 old)))"

text \<open>The conversion back truncates; a value that does not fit is undefined in C.\<close>

definition u64_of_float :: "nat \<Rightarrow> u64 result" where
  "u64_of_float n =
     (if n div FLOAT_UNIT < 2 ^ 64 then Inr (of_nat (n div FLOAT_UNIT)) else Inl Undefined)"

definition tx_estimate_add_observation ::
  "tx_estimator \<Rightarrow> u64 \<Rightarrow> u64 \<Rightarrow> tx_estimator result" where
  "tx_estimate_add_observation txe ident ticks =
     (let id = tx_get_entry ident; tx = txe id
      in if \<not> id < TX_ESTIMATE_TOTAL_ENTRIES then Inl OutOfBounds
         else bindE (u64_of_float (ewma_float ticks (ewma tx))) (\<lambda>e.
           Inr (txe(id := tx\<lparr>ewma := e, tx_counter := tx_counter tx + 1,
                  observations := (observations tx)
                    (unat (tx_counter tx mod of_nat TX_ESTIMATE_TOTAL_OBSERVATIONS) := ticks)\<rparr>))))"

text \<open>
  \<open>abs\<close> takes and returns an \<open>int\<close>: the 64-bit difference is cut to 32 bits, and the most
  negative \<open>int\<close> has no absolute value. The result is widened with its sign.
\<close>

definition c_abs :: "u32 \<Rightarrow> u32 result" where
  "c_abs w = (if w = push_bit 31 1 then Inl Undefined else Inr (if sint w < 0 then - w else w))"

fun add_deviations :: "tx_estimate \<Rightarrow> nat list \<Rightarrow> u64 \<Rightarrow> u64 result" where
  "add_deviations tx [] tot = Inr tot"
| "add_deviations tx (i # is) tot =
     bindE (c_abs (ucast (observations tx i - ewma tx))) (\<lambda>d.
     add_deviations tx is (tot + scast d))"

definition tx_estimate_next_observation_guess :: "tx_estimator \<Rightarrow> u64 \<Rightarrow> u64 result" where
  "tx_estimate_next_observation_guess txe ident =
     (let id = tx_get_entry ident; tx = txe id
      in if \<not> id < TX_ESTIMATE_TOTAL_ENTRIES then Inl OutOfBounds
         else if tx_counter tx > TX_ESTIMATE_MIN_OBSERVATIONS
         then bindE (add_deviations tx [0..<TX_ESTIMATE_TOTAL_OBSERVATIONS] 0) (\<lambda>tot.
           Inr (ewma tx + tot div of_nat TX_ESTIMATE_TOTAL_OBSERVATIONS))
         else Inr (- 1))"

subsection \<open>The entry of an identifier\<close>

lemma tx_get_entry_bound: "tx_get_entry ident < TX_ESTIMATE_TOTAL_ENTRIES"
proof -
  have "unat (x mod 31) < 31" for x :: u64
    using word_mod_less_divisor[of 31 x] by (simp add: word_less_nat_alt)
  then show ?thesis by (simp add: tx_get_entry_def TX_ESTIMATE_TOTAL_ENTRIES_def)
qed

subsection \<open>The average\<close>

lemma fl_round_24:
  "2 ^ 24 * n \<le> 2 ^ 24 * fl_round 24 n + n" "2 ^ 24 * fl_round 24 n \<le> 2 ^ 24 * n + n"
  using fl_round_error[of 24 n] by simp_all

lemma weight_old: "fl_round 24 (FLOAT_UNIT - TX_ESTIMATE_EWMA_WEIGHT) = 53687092"
proof -
  have "bit_count 53687091 = Suc 25" by (rule bit_count_eqI) simp_all
  then show ?thesis
    by (simp add: fl_round_def round_half_even_def FLOAT_UNIT_def TX_ESTIMATE_EWMA_WEIGHT_def)
qed

lemma ewma_float_le:
  assumes "unat t \<le> B" "unat e \<le> B" "B \<le> 2 ^ 22"
  shows "ewma_float t e div FLOAT_UNIT \<le> B"
proof -
  have fl: "float_of_u64 t = unat t" "float_of_u64 e = unat e"
    using assms by (simp_all add: float_of_u64_def fl_round_exact)
  let ?a = "unat t * 13421773" and ?b = "53687092 * unat e"
  let ?x = "fl_round 24 ?a" and ?y = "fl_round 24 ?b"
  have "2 ^ 24 * ?x \<le> 2 ^ 24 * ?a + ?a" "2 ^ 24 * ?y \<le> 2 ^ 24 * ?b + ?b"
    "2 ^ 24 * fl_round 24 (?x + ?y) \<le> 2 ^ 24 * (?x + ?y) + (?x + ?y)"
    by (rule fl_round_24)+
  with assms have "fl_round 24 (?x + ?y) < (B + 1) * 2 ^ 26" by simp
  then have "ewma_float t e < (B + 1) * FLOAT_UNIT"
    unfolding ewma_float_def Let_def weight_old fl
    by (simp add: TX_ESTIMATE_EWMA_WEIGHT_def FLOAT_UNIT_def)
  then have "ewma_float t e div FLOAT_UNIT < B + 1"
    by (simp add: less_mult_imp_div_less)
  then show ?thesis by simp
qed

lemma ewma_step_le:
  assumes "unat t \<le> B" "unat e \<le> B" "B \<le> 2 ^ 22"
  shows "\<exists>e'. u64_of_float (ewma_float t e) = Inr e' \<and> unat e' \<le> B"
proof -
  let ?n = "ewma_float t e div FLOAT_UNIT"
  have n: "?n \<le> B" by (rule ewma_float_le[OF assms])
  with assms(3) have "?n < 2 ^ 64" by simp
  moreover from this have "unat (of_nat ?n :: u64) = ?n" by (simp only: unat_of_nat) simp
  ultimately show ?thesis using n by (simp add: u64_of_float_def)
qed

subsection \<open>The deviation\<close>

lemma ucast_diff: "(ucast (a - b :: u64) :: u32) = word_of_int (uint a - uint b)"
proof -
  have "a - b = word_of_int (uint a - uint b)" by simp
  moreover have "(ucast (word_of_int k :: u64) :: u32) = word_of_int k" for k
    by transfer (simp add: take_bit_take_bit)
  ultimately show ?thesis by metis
qed

lemma sint_small32: "- (2 ^ 31) \<le> k \<Longrightarrow> k < 2 ^ 31 \<Longrightarrow> sint (word_of_int k :: u32) = k"
  by (simp add: signed_of_int signed_take_bit_int_eq_self)

text \<open>Up to a distance of \<open>2 ^ 31\<close> the cut to 32 bits loses nothing.\<close>

lemma c_abs_diff:
  assumes "\<bar>uint a - uint b\<bar> < 2 ^ 31"
  shows "\<exists>d. c_abs (ucast (a - b :: u64)) = Inr d \<and> uint (scast d :: u64) = \<bar>uint a - uint b\<bar>"
proof -
  let ?k = "uint a - uint b"
  let ?w = "word_of_int ?k :: u32"
  have s: "sint ?w = ?k" using assms by (intro sint_small32) auto
  have "sint (push_bit 31 1 :: u32) = - (2 ^ 31)" by (simp add: push_bit_eq_mult)
  then have nm: "?w \<noteq> push_bit 31 1" using s assms by auto
  have m: "sint (- ?w) = - ?k" if "?k < 0"
  proof -
    have "- ?w = word_of_int (- ?k)" by simp
    moreover have "sint (word_of_int (- ?k) :: u32) = - ?k" using assms that by (intro sint_small32) auto
    ultimately show ?thesis by metis
  qed
  have "uint (scast (if ?k < 0 then - ?w else ?w) :: u64) = \<bar>?k\<bar>"
  proof -
    have u: "uint (scast x :: u64) = sint x" if "0 \<le> sint x" for x :: u32
    proof -
      have "sint x < 2 ^ 31" using sint_lt[of x] by simp
      then have "sint (scast x :: u64) = sint x" and "take_bit 64 (sint x) = sint x"
        using that by (simp_all add: signed_scast_eq signed_take_bit_int_eq_self take_bit_int_eq_self)
      then show ?thesis using uint_sint[of "scast x :: u64"] by simp
    qed
    show ?thesis using u[of ?w] u[of "- ?w"] s m by (cases "?k < 0") simp_all
  qed
  moreover have "c_abs (ucast (a - b)) = Inr (if ?k < 0 then - ?w else ?w)"
    unfolding c_abs_def ucast_diff s using nm by (simp only: if_False)
  ultimately show ?thesis by blast
qed

lemma abs_diff_le:
  assumes "unat (a :: u64) \<le> B" "unat (b :: u64) \<le> B"
  shows "\<bar>uint a - uint b\<bar> \<le> int B"
proof -
  have "uint a = int (unat a)" "uint b = int (unat b)" by simp_all
  with assms show ?thesis by linarith
qed

lemma unat_le_of_uint: "uint (w :: u64) \<le> int B \<Longrightarrow> unat w \<le> B"
proof -
  assume "uint w \<le> int B"
  moreover have "uint w = int (unat w)" by simp
  ultimately show ?thesis by linarith
qed

lemma add_deviations_le:
  assumes "\<forall>i\<in>set is. unat (observations tx i) \<le> B" "unat (ewma tx) \<le> B" "B \<le> 2 ^ 22"
    and "unat tot + length is * B < 2 ^ 64"
  shows "\<exists>r. add_deviations tx is tot = Inr r \<and> unat r \<le> unat tot + length is * B"
  using assms(1,4)
proof (induction "is" arbitrary: tot)
  case Nil
  then show ?case by simp
next
  case (Cons i "is")
  have d: "\<bar>uint (observations tx i) - uint (ewma tx)\<bar> \<le> int B"
    using Cons.prems(1) assms(2) by (intro abs_diff_le) simp_all
  with assms(3) have "\<bar>uint (observations tx i) - uint (ewma tx)\<bar> < 2 ^ 31" by simp
  from c_abs_diff[OF this] obtain w where w: "c_abs (ucast (observations tx i - ewma tx)) = Inr w"
    "uint (scast w :: u64) = \<bar>uint (observations tx i) - uint (ewma tx)\<bar>" by blast
  with d have wB: "unat (scast w :: u64) \<le> B" by (intro unat_le_of_uint) simp
  have "unat tot + unat (scast w :: u64) < 2 ^ 64" using wB Cons.prems(2) by simp
  then have t: "unat (tot + scast w) = unat tot + unat (scast w :: u64)"
    by (simp add: unat_word_ariths)
  with wB Cons.prems have "unat (tot + scast w) + length is * B < 2 ^ 64" by simp
  from Cons.IH[OF _ this] Cons.prems(1) obtain r where
    "add_deviations tx is (tot + scast w) = Inr r" "unat r \<le> unat (tot + scast w) + length is * B"
    by auto
  with w t wB show ?case by simp
qed

subsection \<open>Feeding observations\<close>

fun tx_feed :: "tx_estimator \<Rightarrow> u64 \<Rightarrow> u64 list \<Rightarrow> tx_estimator result" where
  "tx_feed txe ident [] = Inr txe"
| "tx_feed txe ident (t # ts) =
     bindE (tx_estimate_add_observation txe ident t) (\<lambda>txe. tx_feed txe ident ts)"

definition tx_ok :: "nat \<Rightarrow> nat \<Rightarrow> tx_estimate \<Rightarrow> bool" where
  "tx_ok B n tx \<longleftrightarrow> unat (ewma tx) \<le> B \<and> (\<forall>i. unat (observations tx i) \<le> B) \<and> tx_counter tx = of_nat n"

lemma tx_ok_add:
  assumes "tx_ok B n (txe (tx_get_entry ident))" "unat t \<le> B" "B \<le> 2 ^ 22"
  shows "\<exists>txe'. tx_estimate_add_observation txe ident t = Inr txe' \<and>
    tx_ok B (Suc n) (txe' (tx_get_entry ident))"
proof -
  from ewma_step_le[of t B "ewma (txe (tx_get_entry ident))"] assms obtain e where
    "u64_of_float (ewma_float t (ewma (txe (tx_get_entry ident)))) = Inr e" "unat e \<le> B"
    by (auto simp: tx_ok_def)
  with assms(1,2) show ?thesis
    by (simp add: tx_estimate_add_observation_def tx_get_entry_bound tx_ok_def Let_def add.commute)
qed

lemma tx_ok_feed:
  "tx_ok B n (txe (tx_get_entry ident)) \<Longrightarrow> \<forall>t\<in>set ts. unat t \<le> B \<Longrightarrow> B \<le> 2 ^ 22 \<Longrightarrow>
   \<exists>txe'. tx_feed txe ident ts = Inr txe' \<and> tx_ok B (n + length ts) (txe' (tx_get_entry ident))"
proof (induction ts arbitrary: txe n)
  case Nil
  then show ?case by simp
next
  case (Cons t ts)
  from tx_ok_add[where B = B and n = n and txe = txe and ident = ident and t = t] Cons.prems obtain txe' where
    a: "tx_estimate_add_observation txe ident t = Inr txe'" "tx_ok B (Suc n) (txe' (tx_get_entry ident))"
    by auto
  from Cons.IH[of "Suc n" txe'] Cons.prems(2,3) a show ?case by simp
qed

lemma tx_guess_ok:
  assumes "tx_ok B n (txe (tx_get_entry ident))" "B \<le> 2 ^ 22" "n < 2 ^ 64"
  shows "if n \<le> 10 then tx_estimate_next_observation_guess txe ident = Inr (- 1)
    else \<exists>g. tx_estimate_next_observation_guess txe ident = Inr g \<and> unat g \<le> 2 * B"
proof -
  let ?tx = "txe (tx_get_entry ident)"
  have c: "TX_ESTIMATE_MIN_OBSERVATIONS < tx_counter ?tx \<longleftrightarrow> 10 < n"
  proof -
    have "unat (of_nat n :: u64) = n" using assms(3) by (simp only: unat_of_nat) simp
    then show ?thesis using assms(1)
      by (simp add: tx_ok_def TX_ESTIMATE_MIN_OBSERVATIONS_def word_less_nat_alt)
  qed
  obtain r where r: "add_deviations ?tx [0..<TX_ESTIMATE_TOTAL_OBSERVATIONS] 0 = Inr r" "unat r \<le> 10 * B"
    using add_deviations_le[of "[0..<TX_ESTIMATE_TOTAL_OBSERVATIONS]" ?tx B 0] assms(1,2)
    by (auto simp: tx_ok_def TX_ESTIMATE_TOTAL_OBSERVATIONS_def)
  have q: "unat (r div 10) \<le> B" using r(2) by (simp add: unat_div)
  then have "unat (ewma ?tx + r div 10) = unat (ewma ?tx) + unat (r div 10)"
    using assms(1,2) by (simp add: tx_ok_def unat_word_ariths)
  then have "unat (ewma ?tx + r div 10) \<le> 2 * B" using q assms(1) by (simp add: tx_ok_def)
  with r(1) c show ?thesis
    by (simp add: tx_estimate_next_observation_guess_def tx_get_entry_bound Let_def
        TX_ESTIMATE_TOTAL_OBSERVATIONS_def)
qed

text \<open>
  At exactly \<open>TX_ESTIMATE_MIN_OBSERVATIONS\<close> observations there is no estimate yet (\<open>tx_guess_ok\<close>),
  although the comment on the constant calls it the minimum number before a choice is made.

  C32: after any sequence of observed transaction lengths up to \<open>2 ^ 22\<close>, all
  arithmetic has stayed in range and in bounds, and what is returned is \<open>-1\<close>, for no estimate,
  or at most twice the longest transaction seen: \<open>-1\<close> before there are
  \<open>TX_ESTIMATE_MIN_OBSERVATIONS\<close> observations, an estimate when there are more.
\<close>

theorem estimate_within_observations:
  assumes "\<forall>t\<in>set ts. unat t \<le> B" "B \<le> 2 ^ 22" "length ts < 2 ^ 64"
  shows "\<exists>txe g. tx_feed tx_estimate_init ident ts = Inr txe \<and>
    tx_estimate_next_observation_guess txe ident = Inr g \<and> (g = - 1 \<or> unat g \<le> 2 * B) \<and>
    (length ts < unat TX_ESTIMATE_MIN_OBSERVATIONS \<longrightarrow> g = - 1) \<and>
    (unat TX_ESTIMATE_MIN_OBSERVATIONS < length ts \<longrightarrow> unat g \<le> 2 * B)"
proof -
  have "tx_ok B 0 (tx_estimate_init (tx_get_entry ident))"
    by (simp add: tx_ok_def tx_estimate_init_def)
  with tx_ok_feed[where B = B and n = 0 and txe = tx_estimate_init and ident = ident and ts = ts] assms(1,2) obtain txe where
    "tx_feed tx_estimate_init ident ts = Inr txe"
    "tx_ok B (length ts) (txe (tx_get_entry ident))" by auto
  with tx_guess_ok[where B = B and n = "length ts" and txe = txe and ident = ident] assms(2,3) show ?thesis
    by (cases "length ts \<le> 10") (auto simp: TX_ESTIMATE_MIN_OBSERVATIONS_def)
qed

theorem estimate_within_observations_witness:
  "\<exists>txe g. tx_feed tx_estimate_init 0x20300 (replicate 11 5000) = Inr txe \<and>
     tx_estimate_next_observation_guess txe 0x20300 = Inr g \<and> unat g \<le> 10000"
  using estimate_within_observations[of "replicate 11 5000" 5000 "0x20300"]
  by (auto simp: TX_ESTIMATE_MIN_OBSERVATIONS_def)

end
