(* ===== verification/Debug_Clock_Cache.thy ===== *)
theory Debug_Clock_Cache
  imports Float_Round
begin

text \<open>
  \<open>src/src/lib/debug_clock_cache.h\<close> and \<open>.c\<close>: a debugging aid that records the clock values of
  a profiling run, each raised by a fifth of the step that led to it, in a file that a later
  run maps and reads back in order. The adjustment is computed in double precision
  (\<open>.20D\<close> is \<open>3602879701896397 * 2 ^ -54\<close>).
\<close>

subsection \<open>The data structure\<close>

definition DEBUG_CLOCK_CACHE_ARR_SIZE :: nat where "DEBUG_CLOCK_CACHE_ARR_SIZE = 2 ^ 20"
definition DEBUG_CLOCK_CACHE_ARR_SIZE_BYTES :: nat where
  "DEBUG_CLOCK_CACHE_ARR_SIZE_BYTES = 2 ^ 20 * 8"

text \<open>In units of \<open>2 ^ -54\<close>.\<close>

definition DEBUG_CLOCK_CACHE_ERROR_ADJUSTMENT_PERCENTAGE :: nat where
  "DEBUG_CLOCK_CACHE_ERROR_ADJUSTMENT_PERCENTAGE = 3602879701896397"

record debug_clock_cache =
  dc_count :: u64
  clock_arr :: "nat \<Rightarrow> u64"
  dc_thread_id :: int

subsection \<open>Opening the file\<close>

text \<open>
  The build decides whether the file is written, read or not used at all; in the last case the
  descriptor and the protection are never set. \<open>open_file\<close> is the system's \<open>open\<close>, given the
  name (\<open>"clock-cache-%d"\<close> and the id that \<open>%d\<close> prints) and whether to create and truncate;
  \<open>map_file\<close> is its \<open>mmap\<close>: the contents of the mapped file, or a failure.
\<close>

datatype cache_build = CacheProfile | CacheOn | CacheOff

definition open_debug_clock_cache_file ::
  "(string \<times> int \<Rightarrow> bool \<Rightarrow> int) \<Rightarrow> cache_build \<Rightarrow> u32 \<Rightarrow> int result" where
  "open_debug_clock_cache_file open_file build thread_id =
     (let file_name = (''clock-cache'', sint thread_id)
      in case build of
           CacheProfile \<Rightarrow> (let fd = open_file file_name True in if fd = -1 then Inl Exit else Inr fd)
         | CacheOn \<Rightarrow> (let fd = open_file file_name False in if fd = -1 then Inl Exit else Inr fd)
         | CacheOff \<Rightarrow> Inl Undefined)"

text \<open>
  \<open>clocks->count-0\<close> computes a value and drops it, and the length given to \<open>memset\<close> is 0: the
  count and the contents stay what they were.
\<close>

definition debug_clock_cache_init ::
  "(string \<times> int \<Rightarrow> bool \<Rightarrow> int) \<Rightarrow> (int \<Rightarrow> (nat \<Rightarrow> u64) option) \<Rightarrow> cache_build \<Rightarrow> u32 \<Rightarrow>
   debug_clock_cache \<Rightarrow> debug_clock_cache result" where
  "debug_clock_cache_init open_file map_file build thread_id cs =
     bindE (open_debug_clock_cache_file open_file build thread_id) (\<lambda>fd.
     case map_file fd of
       None \<Rightarrow> Inl Exit
     | Some mem \<Rightarrow> Inr (cs\<lparr>clock_arr := mem, dc_thread_id := sint thread_id\<rparr>))"

subsection \<open>Recording and reading back\<close>

definition cache_adjustment :: "u64 \<Rightarrow> u64" where
  "cache_adjustment d =
     of_nat (fl_round 53 (fl_round 53 (unat d) * DEBUG_CLOCK_CACHE_ERROR_ADJUSTMENT_PERCENTAGE)
             div 2 ^ 54)"

definition clock_arr_read :: "debug_clock_cache \<Rightarrow> u64 \<Rightarrow> u64 result" where
  "clock_arr_read cs i =
     (if unat i < DEBUG_CLOCK_CACHE_ARR_SIZE then Inr (clock_arr cs (unat i)) else Inl OutOfBounds)"

definition debug_clock_cache_insert ::
  "debug_clock_cache \<Rightarrow> u64 \<Rightarrow> (debug_clock_cache \<times> u64) result" where
  "debug_clock_cache_insert cs clock_value =
     bindE (if dc_count cs > 0
            then bindE (clock_arr_read cs (dc_count cs - 1)) (\<lambda>previous.
                 if clock_value < previous then Inl Exit else Inr (clock_value - previous))
            else Inr clock_value) (\<lambda>tmp_diff.
     let diff = cache_adjustment tmp_diff
     in if \<not> unat (dc_count cs) < DEBUG_CLOCK_CACHE_ARR_SIZE then Inl OutOfBounds
        else Inr (cs\<lparr>clock_arr := (clock_arr cs)(unat (dc_count cs) := clock_value + diff),
                    dc_count := dc_count cs + 1\<rparr>, diff))"

text \<open>The returned value and \<open>*diff\<close>; a value that was overrun is reported as 0.\<close>

definition debug_clock_cache_get ::
  "debug_clock_cache \<Rightarrow> u64 \<Rightarrow> (debug_clock_cache \<times> u64 \<times> u64) result" where
  "debug_clock_cache_get cs clock_value =
     bindE (clock_arr_read cs (dc_count cs)) (\<lambda>return_val.
     if return_val < clock_value then Inr (cs, 0, 0)
     else Inr (cs\<lparr>dc_count := dc_count cs + 1\<rparr>, return_val, return_val - clock_value))"

text \<open>The lines printed: the thread, the index, the value.\<close>

fun cache_lines :: "debug_clock_cache \<Rightarrow> nat list \<Rightarrow> (int \<times> nat \<times> u64) list result" where
  "cache_lines cs [] = Inr []"
| "cache_lines cs (i # is) =
     bindE (clock_arr_read cs (of_nat i)) (\<lambda>v.
     bindE (cache_lines cs is) (\<lambda>ls. Inr ((dc_thread_id cs, i, v) # ls)))"

definition debug_clock_cache_print :: "debug_clock_cache \<Rightarrow> (int \<times> nat \<times> u64) list result" where
  "debug_clock_cache_print cs = cache_lines cs [0..<unat (dc_count cs)]"

subsection \<open>The adjustment is a fifth\<close>

text \<open>The weight is the double just above one fifth: \<open>5 * W = 2 ^ 54 + 1\<close>.\<close>

lemma adjustment_rounds_to_fifth:
  assumes "d < 2 ^ 52"
  shows "fl_round 53 (d * 3602879701896397) div 2 ^ 54 = d div 5"
proof -
  let ?n = "d * 3602879701896397" and ?q = "d div 5"
  have "?q * 2 ^ 54 \<le> ?n" "?n < 2 ^ (53 + 54)" using assms by simp_all
  then have lo: "?q * 2 ^ 54 \<le> fl_round 53 ?n" by (rule fl_round_ge_multiple)
  have "2 ^ 53 * fl_round 53 ?n \<le> 2 ^ 53 * ?n + ?n" by (rule fl_round_error) simp
  moreover have "d \<le> 5 * ?q + 4" by simp
  ultimately have "fl_round 53 ?n < (?q + 1) * 2 ^ 54" using assms by simp
  with lo show ?thesis by (intro div_nat_eqI) (simp_all add: mult.commute)
qed

lemma cache_adjustment_fifth:
  assumes "unat d < 2 ^ 52"
  shows "unat (cache_adjustment d) = unat d div 5"
proof -
  have "fl_round 53 (unat d) = unat d" using assms by (intro fl_round_exact) simp
  then have "cache_adjustment d = of_nat (unat d div 5)"
    using adjustment_rounds_to_fifth[OF assms]
    by (simp add: cache_adjustment_def DEBUG_CLOCK_CACHE_ERROR_ADJUSTMENT_PERCENTAGE_def)
  moreover have "unat d div 5 < 2 ^ 64" using assms by simp
  ultimately show ?thesis by (simp only: unat_of_nat) simp
qed

subsection \<open>A profiling run and its replay\<close>

fun cache_profile :: "debug_clock_cache \<Rightarrow> u64 list \<Rightarrow> (debug_clock_cache \<times> u64 list) result" where
  "cache_profile cs [] = Inr (cs, [])"
| "cache_profile cs (v # vs) =
     bindE (debug_clock_cache_insert cs v) (\<lambda>(cs, d).
     bindE (cache_profile cs vs) (\<lambda>(cs, ds). Inr (cs, d # ds)))"

fun cache_replay ::
  "debug_clock_cache \<Rightarrow> u64 list \<Rightarrow> (debug_clock_cache \<times> (u64 \<times> u64) list) result" where
  "cache_replay cs [] = Inr (cs, [])"
| "cache_replay cs (w # ws) =
     bindE (debug_clock_cache_get cs w) (\<lambda>(cs, r).
     bindE (cache_replay cs ws) (\<lambda>(cs, rs). Inr (cs, r # rs)))"

text \<open>
  The values a profiling run should store, in numbers without bounds: each clock raised by a
  fifth of its distance from the value stored before. \<open>None\<close> is a clock below that value.
\<close>

fun cache_values :: "nat \<Rightarrow> nat list \<Rightarrow> nat list option" where
  "cache_values prev [] = Some []"
| "cache_values prev (v # vs) =
     (if v < prev then None
      else let s = v + (v - prev) div 5 in map_option ((#) s) (cache_values s vs))"

definition cache_prev :: "debug_clock_cache \<Rightarrow> nat" where
  "cache_prev cs = (if dc_count cs = 0 then 0 else unat (clock_arr cs (unat (dc_count cs) - 1)))"

lemma unat_pred: "(c :: u64) \<noteq> 0 \<Longrightarrow> unat (c - 1) = unat c - 1"
  by (simp add: unat_sub word_le_nat_alt Suc_le_eq unat_gt_0)

lemma cache_insert_spec:
  assumes v: "unat v < 2 ^ 52" and n: "unat (dc_count cs) < 2 ^ 20"
  shows "if unat v < cache_prev cs then debug_clock_cache_insert cs v = Inl Exit
    else \<exists>cs' d. debug_clock_cache_insert cs v = Inr (cs', d) \<and>
      unat d = (unat v - cache_prev cs) div 5 \<and>
      unat (dc_count cs') = Suc (unat (dc_count cs)) \<and>
      clock_arr cs' = (clock_arr cs)(unat (dc_count cs) := v + d) \<and>
      unat (v + d) = unat v + unat d \<and> cache_prev cs' = unat (v + d)"
proof -
  let ?d = "v - of_nat (cache_prev cs)"
  have r: "clock_arr_read cs (dc_count cs - 1) = Inr (of_nat (cache_prev cs))" if "dc_count cs \<noteq> 0"
    using that n unat_pred[OF that]
    by (simp add: clock_arr_read_def cache_prev_def DEBUG_CLOCK_CACHE_ARR_SIZE_def)
  have z: "dc_count cs = 0 \<Longrightarrow> cache_prev cs = 0" by (simp add: cache_prev_def)
  have p64: "unat (of_nat (cache_prev cs) :: u64) = cache_prev cs"
    by (simp add: cache_prev_def)
  have pos: "0 < dc_count cs \<longleftrightarrow> dc_count cs \<noteq> 0" by (simp add: word_gt_0)
  show ?thesis
  proof (cases "unat v < cache_prev cs")
    case True
    then have "dc_count cs \<noteq> 0" using z by auto
    moreover have "v < of_nat (cache_prev cs)" using True p64 by (simp add: word_less_nat_alt)
    ultimately show ?thesis using r pos True by (simp add: debug_clock_cache_insert_def)
  next
    case False
    then have le: "of_nat (cache_prev cs) \<le> v" using p64 by (simp add: word_le_nat_alt)
    then have ud: "unat ?d = unat v - cache_prev cs" using p64 by (simp add: unat_sub)
    have a: "unat (cache_adjustment ?d) = (unat v - cache_prev cs) div 5"
      using cache_adjustment_fifth[of ?d] ud v by simp
    have s: "unat (v + cache_adjustment ?d) = unat v + unat (cache_adjustment ?d)"
      using a v by (simp add: unat_word_ariths)
    have "unat (dc_count cs + 1) = Suc (unat (dc_count cs))" using n by (simp add: unat_word_ariths)
    moreover from this have "dc_count cs + 1 \<noteq> 0" by auto
    moreover have "debug_clock_cache_insert cs v =
        Inr (cs\<lparr>clock_arr := (clock_arr cs)(unat (dc_count cs) := v + cache_adjustment ?d),
                dc_count := dc_count cs + 1\<rparr>, cache_adjustment ?d)"
      using r pos z n le
      by (cases "dc_count cs = 0")
        (simp_all add: debug_clock_cache_insert_def DEBUG_CLOCK_CACHE_ARR_SIZE_def Let_def not_less)
    ultimately show ?thesis using False a s by (simp add: cache_prev_def)
  qed
qed

lemma cache_profile_spec:
  assumes "\<forall>v\<in>set vs. unat v < 2 ^ 52" "unat (dc_count cs) + length vs \<le> 2 ^ 20"
  shows "case cache_values (cache_prev cs) (map unat vs) of
      None \<Rightarrow> cache_profile cs vs = Inl Exit
    | Some ss \<Rightarrow> \<exists>cs' ds. cache_profile cs vs = Inr (cs', ds) \<and> length ss = length vs \<and>
        (\<forall>i<unat (dc_count cs). clock_arr cs' i = clock_arr cs i) \<and>
        (\<forall>i<length vs. unat (clock_arr cs' (unat (dc_count cs) + i)) = ss ! i)"
  using assms
proof (induction vs arbitrary: cs)
  case Nil
  then show ?case by simp
next
  case (Cons v vs)
  from Cons.prems have v: "unat v < 2 ^ 52" and n: "unat (dc_count cs) < 2 ^ 20" by simp_all
  note ins = cache_insert_spec[OF v n]
  show ?case
  proof (cases "unat v < cache_prev cs")
    case True
    with ins show ?thesis by simp
  next
    case False
    with ins obtain cs' d where i: "debug_clock_cache_insert cs v = Inr (cs', d)"
      and d: "unat d = (unat v - cache_prev cs) div 5"
      and c: "unat (dc_count cs') = Suc (unat (dc_count cs))"
      and arr: "clock_arr cs' = (clock_arr cs)(unat (dc_count cs) := v + d)"
      and s: "unat (v + d) = unat v + unat d" "cache_prev cs' = unat (v + d)" by auto
    let ?s = "unat v + (unat v - cache_prev cs) div 5"
    have ps: "cache_prev cs' = ?s" using d s by simp
    from Cons.IH[of cs'] Cons.prems c have IH: "case cache_values ?s (map unat vs) of
        None \<Rightarrow> cache_profile cs' vs = Inl Exit
      | Some ss \<Rightarrow> \<exists>cs'' ds. cache_profile cs' vs = Inr (cs'', ds) \<and> length ss = length vs \<and>
          (\<forall>i<unat (dc_count cs'). clock_arr cs'' i = clock_arr cs' i) \<and>
          (\<forall>i<length vs. unat (clock_arr cs'' (unat (dc_count cs') + i)) = ss ! i)"
      unfolding ps by simp
    show ?thesis
    proof (cases "cache_values ?s (map unat vs)")
      case None
      with IH False i show ?thesis by (simp add: Let_def)
    next
      case (Some ss)
      with IH obtain cs'' ds where p: "cache_profile cs' vs = Inr (cs'', ds)" "length ss = length vs"
        and old: "\<forall>i<unat (dc_count cs'). clock_arr cs'' i = clock_arr cs' i"
        and new: "\<forall>i<length vs. unat (clock_arr cs'' (unat (dc_count cs') + i)) = ss ! i" by auto
      have "unat (clock_arr cs'' (unat (dc_count cs))) = ?s" using old c arr d s by simp
      then have "\<forall>i<Suc (length vs). unat (clock_arr cs'' (unat (dc_count cs) + i)) = (?s # ss) ! i"
        using new c by (auto simp: less_Suc_eq_0_disj)
      moreover have "\<forall>i<unat (dc_count cs). clock_arr cs'' i = clock_arr cs i" using old c arr by simp
      ultimately show ?thesis using False i p Some by (simp add: Let_def)
    qed
  qed
qed

lemma cache_replay_spec:
  assumes "list_all2 (\<lambda>w s. unat w \<le> s) ws ss"
    "\<forall>i<length ws. unat (clock_arr cs (unat (dc_count cs) + i)) = ss ! i"
    "unat (dc_count cs) + length ws \<le> 2 ^ 20"
  shows "\<exists>cs'. cache_replay cs ws =
    Inr (cs', map2 (\<lambda>w s. (of_nat s, of_nat s - w)) ws ss)"
  using assms
proof (induction ws ss arbitrary: cs rule: list_all2_induct)
  case Nil
  then show ?case by simp
next
  case (Cons w ws s ss)
  let ?c = "dc_count cs"
  have rv: "unat (clock_arr cs (unat ?c)) = s" using Cons.prems(1) by force
  then have v: "clock_arr cs (unat ?c) = of_nat s" by auto
  have nl: "\<not> of_nat s < w" using rv v Cons.hyps(1) by (simp add: word_less_nat_alt not_less)
  have g: "debug_clock_cache_get cs w = Inr (cs\<lparr>dc_count := ?c + 1\<rparr>, of_nat s, of_nat s - w)"
    using Cons.prems(2) v nl
    by (simp add: debug_clock_cache_get_def clock_arr_read_def DEBUG_CLOCK_CACHE_ARR_SIZE_def)
  have c: "unat (?c + 1) = Suc (unat ?c)" using Cons.prems(2) by (simp add: unat_word_ariths)
  have "\<forall>i<length ws. unat (clock_arr cs (unat (?c + 1) + i)) = ss ! i"
    using Cons.prems(1) unfolding c by force
  with Cons.IH[of "cs\<lparr>dc_count := ?c + 1\<rparr>"] Cons.prems(2) c obtain cs' where
    "cache_replay (cs\<lparr>dc_count := ?c + 1\<rparr>) ws = Inr (cs', map2 (\<lambda>w s. (of_nat s, of_nat s - w)) ws ss)"
    by auto
  with g show ?case by simp
qed

lemma cache_init_Inr:
  "debug_clock_cache_init op mp build t cs = Inr cs' \<Longrightarrow>
   dc_count cs' = dc_count cs \<and> (\<exists>fd. mp fd = Some (clock_arr cs'))"
  unfolding debug_clock_cache_init_def bindE_eq_Inr by (fastforce split: option.splits)

text \<open>
  C33: a profiling run of at most \<open>2 ^ 20\<close> clock values below \<open>2 ^ 52\<close>, on a cache whose count is 0
  (\<open>debug_clock_cache_init\<close> does not reset it), stores each value raised by exactly one fifth, rounded down, of its distance from the value stored
  before; it exits at the first value below the one stored before. A later run that maps the
  file gets the stored values back in order, with their distance from its own clocks, as long
  as none of its clocks is ahead of the stored one.
\<close>

theorem cache_replays_profile:
  assumes "\<forall>v\<in>set vs. unat v < 2 ^ 52" "length vs \<le> 2 ^ 20"
    and "debug_clock_cache_init op mp CacheProfile t cs0 = Inr cs1" "dc_count cs0 = 0"
  shows "case cache_values 0 (map unat vs) of
      None \<Rightarrow> cache_profile cs1 vs = Inl Exit
    | Some ss \<Rightarrow> \<exists>cs2 ds. cache_profile cs1 vs = Inr (cs2, ds) \<and>
        (\<forall>op' mp' t' cs3 ws.
           debug_clock_cache_init op' (\<lambda>fd. Some (clock_arr cs2)) CacheOn t' cs0 = Inr cs3 \<longrightarrow>
           list_all2 (\<lambda>w s. unat w \<le> s) ws ss \<longrightarrow>
           (\<exists>cs4. cache_replay cs3 ws =
              Inr (cs4, map2 (\<lambda>w s. (of_nat s, of_nat s - w)) ws ss)))"
proof -
  have z: "dc_count cs1 = 0" using cache_init_Inr[OF assms(3)] assms(4) by simp
  then have "cache_prev cs1 = 0" "unat (dc_count cs1) = 0" by (simp_all add: cache_prev_def)
  note prof = cache_profile_spec[OF assms(1), of cs1, unfolded this]
  show ?thesis
  proof (cases "cache_values 0 (map unat vs)")
    case None
    with prof assms(2) show ?thesis by simp
  next
    case (Some ss)
    with prof assms(2) obtain cs2 ds where p: "cache_profile cs1 vs = Inr (cs2, ds)" "length ss = length vs"
      and arr: "\<forall>i<length vs. unat (clock_arr cs2 i) = ss ! i" by auto
    have "\<exists>cs4. cache_replay cs3 ws = Inr (cs4, map2 (\<lambda>w s. (of_nat s, of_nat s - w)) ws ss)"
      if i: "debug_clock_cache_init op' (\<lambda>fd. Some (clock_arr cs2)) CacheOn t' cs0 = Inr cs3"
        and l: "list_all2 (\<lambda>w s. unat w \<le> s) ws ss" for op' t' cs3 ws
    proof (rule cache_replay_spec[OF l])
      have c: "dc_count cs3 = 0" "clock_arr cs3 = clock_arr cs2"
        using cache_init_Inr[OF i] assms(4) by auto
      have len: "length ws = length vs" using l p(2) by (simp add: list_all2_lengthD)
      show "\<forall>i<length ws. unat (clock_arr cs3 (unat (dc_count cs3) + i)) = ss ! i"
        using arr c len by simp
      show "unat (dc_count cs3) + length ws \<le> 2 ^ 20" using assms(2) c len by simp
    qed
    with p(1) Some show ?thesis by auto
  qed
qed

theorem cache_replays_profile_witness:
  "\<exists>cs2 ds cs4.
     cache_profile \<lparr>dc_count = 0, clock_arr = (\<lambda>_. 0), dc_thread_id = 3\<rparr> [1000, 1500] = Inr (cs2, ds) \<and>
     cache_replay \<lparr>dc_count = 0, clock_arr = clock_arr cs2, dc_thread_id = 3\<rparr> [900, 1500] =
       Inr (cs4, [(1200, 300), (1560, 60)])"
proof -
  let ?z = "\<lparr>dc_count = 0, clock_arr = (\<lambda>_. 0), dc_thread_id = 3\<rparr>"
  have i: "debug_clock_cache_init (\<lambda>_ _. 5) (\<lambda>_. Some a) b 3 ?z = Inr (?z\<lparr>clock_arr := a\<rparr>)"
    if "b \<noteq> CacheOff" for a b
    using that by (cases b) (simp_all add: debug_clock_cache_init_def open_debug_clock_cache_file_def Let_def)
  have v: "cache_values 0 (map unat [1000, 1500 :: u64]) = Some [1200, 1560]" by simp
  have "\<forall>v\<in>set [1000, 1500 :: u64]. unat v < 2 ^ 52" "length [1000, 1500 :: u64] \<le> 2 ^ 20" by simp_all
  from cache_replays_profile[OF this i[of CacheProfile "\<lambda>_. 0"]]
  obtain cs2 ds where p: "cache_profile ?z [1000, 1500] = Inr (cs2, ds)" and
    r: "\<And>op' t' cs3 ws. debug_clock_cache_init op' (\<lambda>fd. Some (clock_arr cs2)) CacheOn t' ?z = Inr cs3 \<Longrightarrow>
       list_all2 (\<lambda>w s. unat w \<le> s) ws [1200, 1560] \<Longrightarrow>
       \<exists>cs4. cache_replay cs3 ws =
          Inr (cs4, map2 (\<lambda>w s. (of_nat s, of_nat s - w)) ws [1200, 1560])"
    unfolding v by auto
  have m: "map2 (\<lambda>w s. (of_nat s, of_nat s - w)) [900, 1500] [1200, 1560] = [(1200, 300), (1560, 60 :: u64)]"
    "?z\<lparr>clock_arr := a\<rparr> = \<lparr>dc_count = 0, clock_arr = a, dc_thread_id = 3\<rparr>" for a
    by simp_all
  have "\<exists>cs4. cache_replay (?z\<lparr>clock_arr := clock_arr cs2\<rparr>) [900, 1500] =
    Inr (cs4, map2 (\<lambda>w s. (of_nat s, of_nat s - w)) [900, 1500] [1200, 1560])"
    by (rule r[OF i]) simp_all
  with p show ?thesis unfolding m by blast
qed

end
