(* ===== verification/Determ_Clock.thy ===== *)
theory Determ_Clock
  imports Perf_Counter Tx_Estimate Debug_Clock_Cache TC_State
begin

text \<open>
  \<open>src/src/lib/determ_clock.h\<close> and \<open>.c\<close>: the user library. It keeps a little state per process
  (\<open>task_clock_info\<close>), shares a file of status records with the other processes and with the
  kernel module, and sends requests to the module. The operating system and the module are a
  parameter here: the record of calls in \<open>lib_os\<close>. The memory that others write is read through
  it, and may change at every call and, in the spin loop, between two reads.
\<close>

subsection \<open>Constants and state\<close>

definition DETERM_CLOCK_MAX_THREADS :: nat where "DETERM_CLOCK_MAX_THREADS = 1024"
definition DETERM_EVENT_DEBUGGING_SIZE :: nat where "DETERM_EVENT_DEBUGGING_SIZE = 100000"
definition DETERM_CLOCK_SAMPLE_PERIOD :: u32 where "DETERM_CLOCK_SAMPLE_PERIOD = 5000"
definition MAX_SPIN_INT :: nat where "MAX_SPIN_INT = 1000"

definition TASK_CLOCK_OP_STOP :: u32 where [tc_macro]: "TASK_CLOCK_OP_STOP = 1"
definition TASK_CLOCK_OP_START :: u32 where [tc_macro]: "TASK_CLOCK_OP_START = 2"
definition TASK_CLOCK_OP_START_COARSENED :: u32 where [tc_macro]: "TASK_CLOCK_OP_START_COARSENED = 3"
definition TASK_CLOCK_COARSENED :: int where [tc_macro]: "TASK_CLOCK_COARSENED = 1"
definition TASK_CLOCK_NOT_COARSENED :: int where [tc_macro]: "TASK_CLOCK_NOT_COARSENED = 2"

text \<open>
  \<open>user_status\<close> is the index of the process's record in the shared array; \<open>disabled\<close>,
  \<open>in_coarsened_tx\<close> are only ever 0 or 1.
\<close>

record determ_task_clock_info =
  tci_tid :: u32
  perf_counter :: perf_counter_info
  user_status :: nat
  disabled :: bool
  tci_debug_clock_cache :: debug_clock_cache
  last_clock_value :: u64
  coarsened_ticks_counter :: u64
  estimator :: tx_estimator
  in_coarsened_tx :: bool
  last_raw_perf :: u64
  current_raw_perf :: u64

text \<open>The shared file. \<open>leader_perf_counter\<close> is a pointer that is set once and never followed.\<close>

record determ_clock_info =
  leader_perf_counter :: bool
  id_counter :: u64
  clock_file_name :: string
  current_event_count :: u64
  dci_user_status :: "nat \<Rightarrow> task_clock_user_status"
  event_debugging :: "nat \<Rightarrow> u64"
  event_tick_debugging :: "nat \<Rightarrow> u64"

text \<open>
  The calls beyond those of the performance counter. \<open>shared\<close> and \<open>set_shared\<close> are the
  loads and stores on the mapped file, \<open>sys_task_clock\<close> and \<open>sys_task_clock_do\<close> the two system
  calls of the patched kernel, \<open>sys_rdpmc\<close> the value that \<open>rdpmc\<close> leaves in its variable, and
  \<open>sys_elapse\<close> what the others do between two reads of the spin loop.
\<close>

record 's lib_os = "'s os" +
  shared :: "'s \<Rightarrow> determ_clock_info"
  set_shared :: "determ_clock_info \<Rightarrow> 's \<Rightarrow> 's"
  sys_mkstemp :: "string \<Rightarrow> 's \<Rightarrow> 's \<times> int \<times> string"
  sys_open :: "string \<Rightarrow> 's \<Rightarrow> 's \<times> int"
  sys_ftruncate :: "int \<Rightarrow> nat \<Rightarrow> 's \<Rightarrow> 's"
  sys_mlock :: "u64 \<Rightarrow> nat \<Rightarrow> 's \<Rightarrow> 's"
  sys_task_clock :: "u64 \<Rightarrow> u64 \<Rightarrow> u64 \<Rightarrow> 's \<Rightarrow> 's result"
  sys_task_clock_do :: "u32 \<Rightarrow> u64 \<Rightarrow> 's \<Rightarrow> 's result"
  sys_poll :: "int \<Rightarrow> 's \<Rightarrow> 's"
  sys_rdpmc :: "u32 \<Rightarrow> 's \<Rightarrow> u64"
  sys_elapse :: "'s \<Rightarrow> 's"

record 's process =
  clock_info :: u64
  task_clock_info :: determ_task_clock_info
  sys :: 's

subsection \<open>Access to the state\<close>

definition upd_tci ::
  "(determ_task_clock_info \<Rightarrow> determ_task_clock_info) \<Rightarrow> 's process \<Rightarrow> 's process" where
  "upd_tci f u = u\<lparr>task_clock_info := f (task_clock_info u)\<rparr>"

definition upd_shared ::
  "('s, 'b) lib_os_scheme \<Rightarrow> (determ_clock_info \<Rightarrow> determ_clock_info) \<Rightarrow> 's process \<Rightarrow> 's process" where
  "upd_shared os f u = u\<lparr>sys := set_shared os (f (shared os (sys u))) (sys u)\<rparr>"

definition my_status :: "('s, 'b) lib_os_scheme \<Rightarrow> 's process \<Rightarrow> task_clock_user_status" where
  "my_status os u = dci_user_status (shared os (sys u)) (user_status (task_clock_info u))"

definition upd_status ::
  "('s, 'b) lib_os_scheme \<Rightarrow> (task_clock_user_status \<Rightarrow> task_clock_user_status) \<Rightarrow>
   's process \<Rightarrow> 's process" where
  "upd_status os f u =
     (let i = user_status (task_clock_info u)
      in upd_shared os (\<lambda>d. d\<lparr>dci_user_status := (dci_user_status d)(i := f (dci_user_status d i))\<rparr>) u)"

definition lib_ioctl ::
  "('s, 'b) lib_os_scheme \<Rightarrow> perf_event_ioc \<Rightarrow> u32 \<Rightarrow> 's process \<Rightarrow> 's process result" where
  "lib_ioctl os req arg u =
     bindE (ioctl_or_exit os (pci_fd (perf_counter (task_clock_info u))) req arg (sys u)) (\<lambda>s.
     Inr (u\<lparr>sys := s\<rparr>))"

text \<open>The performance counter operations act on the field of \<open>task_clock_info\<close>.\<close>

definition on_perf_counter ::
  "(perf_counter_info \<Rightarrow> 's \<Rightarrow> (perf_counter_info \<times> 's) result) \<Rightarrow> 's process \<Rightarrow> 's process result" where
  "on_perf_counter f u =
     bindE (f (perf_counter (task_clock_info u)) (sys u)) (\<lambda>(pci, s).
     Inr (upd_tci (\<lambda>t. t\<lparr>perf_counter := pci\<rparr>) (u\<lparr>sys := s\<rparr>)))"

text \<open>A 64-bit value returned as \<open>int\<close>.\<close>

definition int_of_u64 :: "u64 \<Rightarrow> int" where "int_of_u64 x = sint (ucast x :: u32)"

subsection \<open>Set-up\<close>

definition determ_task_clock_get_info :: "'s process \<Rightarrow> determ_task_clock_info" where
  "determ_task_clock_get_info u = task_clock_info u"

definition determ_task_clock_get_userspace_info :: "'s process \<Rightarrow> nat" where
  "determ_task_clock_get_userspace_info u = user_status (task_clock_info u)"

definition make_clock_sys_call ::
  "('s, 'b) lib_os_scheme \<Rightarrow> u64 \<Rightarrow> u64 \<Rightarrow> u64 \<Rightarrow> 's process \<Rightarrow> 's process result" where
  "make_clock_sys_call os address tid fd u =
     bindE (sys_task_clock os fd address tid (sys u)) (\<lambda>s. Inr (u\<lparr>sys := s\<rparr>))"

definition sys_task_clock_do_call ::
  "('s, 'b) lib_os_scheme \<Rightarrow> u32 \<Rightarrow> u64 \<Rightarrow> 's process \<Rightarrow> 's process result" where
  "sys_task_clock_do_call os operation val u =
     bindE (sys_task_clock_do os operation val (sys u)) (\<lambda>s. Inr (u\<lparr>sys := s\<rparr>))"

text \<open>\<open>sizeof(struct determ_clock_info)\<close>, and the address of a status record inside it.\<close>

definition sizeof_task_clock_user_status :: nat where "sizeof_task_clock_user_status = 72"
definition offset_user_status :: nat where "offset_user_status = 8 + 8 + 200 + 8"
definition sizeof_determ_clock_info :: nat where
  "sizeof_determ_clock_info =
     offset_user_status + sizeof_task_clock_user_status * DETERM_CLOCK_MAX_THREADS +
     2 * (8 * DETERM_EVENT_DEBUGGING_SIZE)"

definition user_status_address :: "u64 \<Rightarrow> nat \<Rightarrow> u64" where
  "user_status_address base i =
     base + of_nat (offset_user_status + sizeof_task_clock_user_status * i)"

text \<open>The result of \<open>mmap\<close> is compared with \<open>NULL\<close>; the memory's address and the file's name are returned.\<close>

definition create_shared_mem ::
  "('s, 'b) lib_os_scheme \<Rightarrow> 's \<Rightarrow> (u64 \<times> string \<times> 's) result" where
  "create_shared_mem os s =
     (case sys_mkstemp os ''TASK_CLOCK_XXXXXX'' s of (s, fd, file_name) \<Rightarrow>
        if fd = -1 then Inl Exit
        else let s = sys_ftruncate os fd sizeof_determ_clock_info s
             in case sys_mmap os sizeof_determ_clock_info fd s of (s, mem) \<Rightarrow>
                  if mem = 0 then Inl Exit
                  else Inr (mem, file_name, sys_mlock os mem sizeof_determ_clock_info s))"

definition open_shared_mem :: "('s, 'b) lib_os_scheme \<Rightarrow> 's \<Rightarrow> (u64 \<times> 's) result" where
  "open_shared_mem os s =
     (case sys_open os (clock_file_name (shared os s)) s of (s, fd) \<Rightarrow>
        if fd = -1 then Inl Exit
        else case sys_mmap os sizeof_determ_clock_info fd s of (s, mem) \<Rightarrow>
               if mem = 0 then Inl Exit
               else Inr (mem, sys_mlock os mem sizeof_determ_clock_info s))"

definition determ_task_set_scaling_factor ::
  "('s, 'b) lib_os_scheme \<Rightarrow> u8 \<Rightarrow> u8 \<Rightarrow> 's process \<Rightarrow> 's process" where
  "determ_task_set_scaling_factor os whole fraction =
     upd_status os (\<lambda>us. us\<lparr>us_scaling_whole := whole, us_scaling_fraction := fraction\<rparr>)"

text \<open>A store through \<open>clock_info\<close> faults when the mapping had failed.\<close>

definition mapped :: "u64 \<Rightarrow> bool" where "mapped p \<longleftrightarrow> p \<noteq> 0 \<and> p \<noteq> MAP_FAILED"

definition determ_task_clock_init_with_id ::
  "('s, 'b) lib_os_scheme \<Rightarrow> u32 \<Rightarrow> 's process \<Rightarrow> 's process result" where
  "determ_task_clock_init_with_id os tid u =
     (let u = upd_tci (\<lambda>t. t\<lparr>tci_tid := tid\<rparr>) u
      in bindE (if tid \<noteq> 0
                then bindE (open_shared_mem os (sys u)) (\<lambda>(mem, s). Inr (u\<lparr>clock_info := mem, sys := s\<rparr>))
                else Inr u) (\<lambda>u.
         if \<not> mapped (clock_info u) \<or> \<not> unat tid < DETERM_CLOCK_MAX_THREADS then Inl OutOfBounds
         else
           let u = upd_tci (\<lambda>t. t\<lparr>user_status := unat tid\<rparr>) u;
               u = upd_status os (\<lambda>_. zero_user_status) u;
               u = upd_tci (\<lambda>t. t\<lparr>disabled := False, last_clock_value := 0, last_raw_perf := 0,
                     coarsened_ticks_counter := 0, in_coarsened_tx := False,
                     estimator := tx_estimate_init\<rparr>) u
           in bindE (make_clock_sys_call os (user_status_address (clock_info u) (unat tid)) (ucast tid) 0 u) (\<lambda>u.
              bindE (on_perf_counter (perf_counter_init os DETERM_CLOCK_SAMPLE_PERIOD
                       (if tid = 0 then -1 else pci_fd (perf_counter (task_clock_info u)))) u) (\<lambda>u.
              Inr (determ_task_set_scaling_factor os 1 0 u)))))"

definition determ_task_clock_init :: "('s, 'b) lib_os_scheme \<Rightarrow> 's process \<Rightarrow> 's process result" where
  "determ_task_clock_init os u =
     (if \<not> mapped (clock_info u) then Inl OutOfBounds
      else let n = id_counter (shared os (sys u))
           in determ_task_clock_init_with_id os (ucast n)
                (upd_shared os (\<lambda>d. d\<lparr>id_counter := n + 1\<rparr>) u))"

definition clear_prefix :: "nat \<Rightarrow> (nat \<Rightarrow> u64) \<Rightarrow> nat \<Rightarrow> u64" where
  "clear_prefix n a i = (if i < n then 0 else a i)"

definition determ_clock_init :: "('s, 'b) lib_os_scheme \<Rightarrow> 's process \<Rightarrow> 's process result" where
  "determ_clock_init os u =
     bindE (create_shared_mem os (sys u)) (\<lambda>(mem, file_name, s).
     let u = u\<lparr>clock_info := mem, sys := s\<rparr>
     in if \<not> mapped mem then Inl OutOfBounds
        else
          let u = upd_shared os (\<lambda>d. d\<lparr>clock_file_name := file_name,
                event_debugging := clear_prefix DETERM_EVENT_DEBUGGING_SIZE (event_debugging d),
                event_tick_debugging := clear_prefix DETERM_EVENT_DEBUGGING_SIZE (event_tick_debugging d)\<rparr>) u
          in bindE (determ_task_clock_init os u) (\<lambda>u.
             Inr (upd_shared os (\<lambda>d. d\<lparr>leader_perf_counter := True\<rparr>) u)))"

subsection \<open>Reading\<close>

definition determ_task_clock_single_active_thread :: "('s, 'b) lib_os_scheme \<Rightarrow> 's process \<Rightarrow> int" where
  "determ_task_clock_single_active_thread os u = uint (us_single_active_thread (my_status os u))"

definition determ_task_clock_clear_single_active_thread ::
  "('s, 'b) lib_os_scheme \<Rightarrow> 's process \<Rightarrow> 's process" where
  "determ_task_clock_clear_single_active_thread os =
     upd_status os (\<lambda>us. us\<lparr>us_single_active_thread := 0\<rparr>)"

definition determ_debug_notifying_clock_read :: "('s, 'b) lib_os_scheme \<Rightarrow> 's process \<Rightarrow> u64" where
  "determ_debug_notifying_clock_read os u = us_notifying_clock (my_status os u)"

definition determ_debug_notifying_id_read :: "('s, 'b) lib_os_scheme \<Rightarrow> 's process \<Rightarrow> int" where
  "determ_debug_notifying_id_read os u = int_of_u64 (us_notifying_id (my_status os u))"

definition determ_debug_notifying_sample_read :: "('s, 'b) lib_os_scheme \<Rightarrow> 's process \<Rightarrow> int" where
  "determ_debug_notifying_sample_read os u = int_of_u64 (us_notifying_sample (my_status os u))"

definition determ_debug_notifying_diff_read :: "('s, 'b) lib_os_scheme \<Rightarrow> 's process \<Rightarrow> int" where
  "determ_debug_notifying_diff_read os u = int_of_u64 (us_notifying_diff (my_status os u))"

definition determ_task_clock_read :: "('s, 'b) lib_os_scheme \<Rightarrow> 's process \<Rightarrow> u64" where
  "determ_task_clock_read os u =
     us_ticks (my_status os u) + coarsened_ticks_counter (task_clock_info u)"

definition determ_debugging_is_disabled :: "'s process \<Rightarrow> bool" where
  "determ_debugging_is_disabled u = disabled (task_clock_info u)"

text \<open>As in the code: the clock counts as active when it is disabled.\<close>

definition determ_task_clock_is_active :: "'s process \<Rightarrow> bool" where
  "determ_task_clock_is_active u = disabled (task_clock_info u)"

definition determ_task_clock_last_raw_perf :: "'s process \<Rightarrow> u64" where
  "determ_task_clock_last_raw_perf u = last_raw_perf (task_clock_info u)"

definition determ_task_clock_period_sets :: "('s, 'b) lib_os_scheme \<Rightarrow> 's process \<Rightarrow> u64" where
  "determ_task_clock_period_sets os u = us_period_sets (my_status os u)"

definition determ_task_clock_current_raw_perf :: "'s process \<Rightarrow> u64" where
  "determ_task_clock_current_raw_perf u = current_raw_perf (task_clock_info u)"

definition determ_task_clock_get_coarsened_ticks :: "'s process \<Rightarrow> u64" where
  "determ_task_clock_get_coarsened_ticks u = coarsened_ticks_counter (task_clock_info u)"

definition determ_task_clock_in_coarsened_tx :: "'s process \<Rightarrow> bool" where
  "determ_task_clock_in_coarsened_tx u = in_coarsened_tx (task_clock_info u)"

definition determ_task_clock_get_last_tx_size :: "('s, 'b) lib_os_scheme \<Rightarrow> 's process \<Rightarrow> u64" where
  "determ_task_clock_get_last_tx_size os u =
     determ_task_clock_read os u - last_clock_value (task_clock_info u)"

definition determ_task_get_id :: "'s process \<Rightarrow> u32" where
  "determ_task_get_id u = tci_tid (task_clock_info u)"

definition determ_task_clock_hit_bounded_fence :: "('s, 'b) lib_os_scheme \<Rightarrow> 's process \<Rightarrow> int" where
  "determ_task_clock_hit_bounded_fence os u = int_of_u64 (us_hit_bounded_fence (my_status os u))"

definition determ_task_clock_estimate_next_tx :: "'s process \<Rightarrow> u64 \<Rightarrow> u64 result" where
  "determ_task_clock_estimate_next_tx u ident =
     tx_estimate_next_observation_guess (estimator (task_clock_info u)) ident"

subsection \<open>Requests\<close>

definition determ_task_clock_reset :: "('s, 'b) lib_os_scheme \<Rightarrow> 's process \<Rightarrow> 's process result" where
  "determ_task_clock_reset os = lib_ioctl os IOC_TASK_CLOCK_RESET 0"

definition woke_up :: "('s, 'b) lib_os_scheme \<Rightarrow> 's process \<Rightarrow> 's process result" where
  "woke_up os u =
     bindE (lib_ioctl os IOC_TASK_CLOCK_WOKE_UP 0 u) (\<lambda>u.
     Inr (upd_status os (\<lambda>us. us\<lparr>us_lowest_clock := 0\<rparr>) (upd_tci (\<lambda>t. t\<lparr>disabled := False\<rparr>) u)))"

definition is_named_lowest :: "('s, 'b) lib_os_scheme \<Rightarrow> 's process \<Rightarrow> bool" where
  "is_named_lowest os u \<longleftrightarrow> us_lowest_clock (my_status os u) \<noteq> 0"

definition determ_task_clock_is_lowest ::
  "('s, 'b) lib_os_scheme \<Rightarrow> 's process \<Rightarrow> ('s process \<times> int) result" where
  "determ_task_clock_is_lowest os u =
     bindE (if \<not> disabled (task_clock_info u) \<and> \<not> is_named_lowest os u
            then bindE (lib_ioctl os IOC_TASK_CLOCK_WAIT 0 u) (\<lambda>u.
                 Inr (upd_tci (\<lambda>t. t\<lparr>disabled := True\<rparr>) u))
            else Inr u) (\<lambda>u.
     if is_named_lowest os u
     then bindE (woke_up os u) (\<lambda>u. Inr (u, 1))
     else Inr (u, 0))"

definition determ_task_clock_on_wakeup :: "('s, 'b) lib_os_scheme \<Rightarrow> 's process \<Rightarrow> 's process" where
  "determ_task_clock_on_wakeup os u =
     upd_status os (\<lambda>us. us\<lparr>us_lowest_clock := 0\<rparr>) (upd_tci (\<lambda>t. t\<lparr>disabled := False\<rparr>) u)"

text \<open>The spin loop: \<open>n\<close> rounds are left.\<close>

fun spin_lowest :: "('s, 'b) lib_os_scheme \<Rightarrow> nat \<Rightarrow> 's process \<Rightarrow> 's process" where
  "spin_lowest os n u =
     (if is_named_lowest os u then u
      else let u = u\<lparr>sys := sys_elapse os (sys u)\<rparr>
           in case n of 0 \<Rightarrow> u | Suc n \<Rightarrow> spin_lowest os n u)"

declare spin_lowest.simps [simp del]

definition sleep_until_lowest :: "('s, 'b) lib_os_scheme \<Rightarrow> 's process \<Rightarrow> 's process result" where
  "sleep_until_lowest os u =
     (if is_named_lowest os u then Inr u
      else bindE (lib_ioctl os IOC_TASK_CLOCK_SLEEP 0 u) (\<lambda>u.
           Inr (if is_named_lowest os u then u
                else u\<lparr>sys := sys_poll os (pci_fd (perf_counter (task_clock_info u))) (sys u)\<rparr>)))"

definition determ_task_clock_is_lowest_wait ::
  "('s, 'b) lib_os_scheme \<Rightarrow> 's process \<Rightarrow> ('s process \<times> bool) result" where
  "determ_task_clock_is_lowest_wait os u =
     (let polled = disabled (task_clock_info u)
      in bindE (lib_ioctl os IOC_TASK_CLOCK_WAIT 0 u) (\<lambda>u.
         bindE (sleep_until_lowest os (spin_lowest os MAX_SPIN_INT (upd_tci (\<lambda>t. t\<lparr>disabled := True\<rparr>) u))) (\<lambda>u.
         bindE (lib_ioctl os IOC_TASK_CLOCK_WOKE_UP 0 u) (\<lambda>u.
         bindE (woke_up os u) (\<lambda>u.
         Inr (u, polled))))))"

definition determ_task_clock_activate :: "('s, 'b) lib_os_scheme \<Rightarrow> 's process \<Rightarrow> 's process result" where
  "determ_task_clock_activate os u =
     lib_ioctl os IOC_TASK_CLOCK_ACTIVATE 0
       (upd_tci (\<lambda>t. t\<lparr>disabled := False\<rparr>) (upd_status os (\<lambda>us. us\<lparr>us_lowest_clock := 0\<rparr>) u))"

text \<open>\<open>ticks\<close> is an \<open>int32_t\<close>, passed as its 32 bits.\<close>

definition determ_task_clock_add_ticks ::
  "('s, 'b) lib_os_scheme \<Rightarrow> u32 \<Rightarrow> 's process \<Rightarrow> 's process result" where
  "determ_task_clock_add_ticks os n = lib_ioctl os IOC_TASK_CLOCK_ADD_TICKS n"

definition determ_task_clock_activate_other ::
  "('s, 'b) lib_os_scheme \<Rightarrow> u32 \<Rightarrow> 's process \<Rightarrow> ('s process \<times> int) result" where
  "determ_task_clock_activate_other os tid u =
     (let u = upd_status os (\<lambda>us. us\<lparr>us_single_active_thread := 0\<rparr>) u
      in bindE (lib_ioctl os IOC_TASK_CLOCK_ACTIVATE_OTHER tid u) (\<lambda>u.
         if us_activated_lowest (my_status os u) \<noteq> 0
         then Inr (upd_status os (\<lambda>us. us\<lparr>us_activated_lowest := 0\<rparr>) u, 1)
         else Inr (u, 0)))"

subsection \<open>Starting and stopping the clock\<close>

definition rdpmc :: "('s, 'b) lib_os_scheme \<Rightarrow> u32 \<Rightarrow> 's process \<Rightarrow> u64" where
  "rdpmc os reg u = sys_rdpmc os reg (sys u)"

definition determ_task_clock_start_type ::
  "('s, 'b) lib_os_scheme \<Rightarrow> int \<Rightarrow> 's process \<Rightarrow> 's process result" where
  "determ_task_clock_start_type os start_type u =
     (let diff = 0 :: u64;
          u = upd_tci (\<lambda>t. t\<lparr>disabled := False\<rparr>) u;
          u = upd_status os (\<lambda>us. us\<lparr>us_lowest_clock := 0\<rparr>) u;
          u = upd_tci (\<lambda>t. t\<lparr>last_clock_value := determ_task_clock_read os u\<rparr>) u
      in if start_type \<noteq> TASK_CLOCK_COARSENED
         then bindE (if diff > 0 then determ_task_clock_add_ticks os (ucast diff) u else Inr u) (\<lambda>u.
              if \<not> started (perf_counter (task_clock_info u))
              then on_perf_counter (perf_counter_start os) u
              else sys_task_clock_do_call os TASK_CLOCK_OP_START 0 u)
         else sys_task_clock_do_call os TASK_CLOCK_OP_START_COARSENED 0 u)"

text \<open>The 64-bit counter is passed on as an \<open>int32_t\<close>.\<close>

definition determ_task_clock_end_coarsened_tx ::
  "('s, 'b) lib_os_scheme \<Rightarrow> 's process \<Rightarrow> 's process result" where
  "determ_task_clock_end_coarsened_tx os u =
     bindE (if coarsened_ticks_counter (task_clock_info u) > 0
            then determ_task_clock_add_ticks os (ucast (coarsened_ticks_counter (task_clock_info u))) u
            else Inr u) (\<lambda>u.
     Inr (upd_tci (\<lambda>t. t\<lparr>in_coarsened_tx := False, coarsened_ticks_counter := 0\<rparr>) u))"

definition determ_task_clock_start :: "('s, 'b) lib_os_scheme \<Rightarrow> 's process \<Rightarrow> 's process result" where
  "determ_task_clock_start os = determ_task_clock_start_type os TASK_CLOCK_NOT_COARSENED"

definition determ_task_clock_start_no_notify ::
  "('s, 'b) lib_os_scheme \<Rightarrow> 's process \<Rightarrow> 's process result" where
  "determ_task_clock_start_no_notify os u =
     bindE (if \<not> in_coarsened_tx (task_clock_info u)
            then bindE (determ_task_clock_start_type os TASK_CLOCK_COARSENED u) (\<lambda>u.
                 Inr (upd_tci (\<lambda>t. t\<lparr>in_coarsened_tx := True\<rparr>) u))
            else Inr (upd_tci (\<lambda>t. t\<lparr>last_clock_value := determ_task_clock_read os u\<rparr>) u)) (\<lambda>u.
     Inr (upd_tci (\<lambda>t. t\<lparr>last_raw_perf := rdpmc os (us_hwc_idx (my_status os u)) u\<rparr>) u))"

text \<open>The difference of two readings of a 48-bit counter.\<close>

definition raw_delta :: "u64 \<Rightarrow> u64 \<Rightarrow> u64" where
  "raw_delta new_raw last_raw = drop_bit 16 (push_bit 16 new_raw - push_bit 16 last_raw)"

definition determ_task_clock_stop_type ::
  "('s, 'b) lib_os_scheme \<Rightarrow> u64 \<Rightarrow> int \<Rightarrow> 's process \<Rightarrow> 's process result" where
  "determ_task_clock_stop_type os ident stop_type u =
     bindE (if stop_type = TASK_CLOCK_NOT_COARSENED
            then bindE (sys_task_clock_do_call os TASK_CLOCK_OP_STOP 0 u) (\<lambda>u.
                 Inr (u, determ_task_clock_get_last_tx_size os u))
            else let new_raw = rdpmc os (us_hwc_idx (my_status os u)) u;
                     delta = raw_delta new_raw (last_raw_perf (task_clock_info u))
                 in Inr (upd_tci (\<lambda>t. t\<lparr>coarsened_ticks_counter := coarsened_ticks_counter t + delta,
                           current_raw_perf := new_raw\<rparr>) u, delta)) (\<lambda>(u, tx_size).
     bindE (tx_estimate_add_observation (estimator (task_clock_info u)) ident tx_size) (\<lambda>txe.
     Inr (upd_tci (\<lambda>t. t\<lparr>estimator := txe\<rparr>) u)))"

definition determ_task_clock_stop_with_id ::
  "('s, 'b) lib_os_scheme \<Rightarrow> u64 \<Rightarrow> 's process \<Rightarrow> 's process result" where
  "determ_task_clock_stop_with_id os ident = determ_task_clock_stop_type os ident TASK_CLOCK_NOT_COARSENED"

definition determ_task_clock_stop_with_id_no_notify ::
  "('s, 'b) lib_os_scheme \<Rightarrow> u64 \<Rightarrow> 's process \<Rightarrow> 's process result" where
  "determ_task_clock_stop_with_id_no_notify os ident = determ_task_clock_stop_type os ident TASK_CLOCK_COARSENED"

definition determ_task_clock_stop :: "('s, 'b) lib_os_scheme \<Rightarrow> 's process \<Rightarrow> 's process result" where
  "determ_task_clock_stop os = determ_task_clock_stop_with_id os 0"

definition determ_task_clock_stop_no_notify ::
  "('s, 'b) lib_os_scheme \<Rightarrow> 's process \<Rightarrow> 's process result" where
  "determ_task_clock_stop_no_notify os = determ_task_clock_stop_with_id_no_notify os 0"

definition determ_task_clock_halt :: "('s, 'b) lib_os_scheme \<Rightarrow> 's process \<Rightarrow> 's process result" where
  "determ_task_clock_halt os u =
     bindE (on_perf_counter (perf_counter_stop os) u) (\<lambda>u.
     lib_ioctl os IOC_TASK_CLOCK_HALT 0 (upd_tci (\<lambda>t. t\<lparr>disabled := True\<rparr>) u))"

definition determ_task_clock_close :: "('s, 'b) lib_os_scheme \<Rightarrow> 's process \<Rightarrow> 's process result" where
  "determ_task_clock_close os u =
     bindE (perf_counter_close os (perf_counter (task_clock_info u)) (sys u)) (\<lambda>s. Inr (u\<lparr>sys := s\<rparr>))"

end
