(* ===== verification/Determ_Clock_Properties.thy ===== *)
theory Determ_Clock_Properties
  imports Determ_Clock
begin

text \<open>
  The user library over any operating system: what each operation does to the process's own
  state, the measuring of coarsened transactions with the raw counter, the wait for the lowest
  clock, and the set-up of the shared file.
\<close>

subsection \<open>Access to the state\<close>

lemma upd_tci_sel [simp]:
  "task_clock_info (upd_tci f u) = f (task_clock_info u)"
  "sys (upd_tci f u) = sys u"
  "clock_info (upd_tci f u) = clock_info u"
  by (simp_all add: upd_tci_def)

lemma upd_status_sel [simp]:
  "task_clock_info (upd_status os f u) = task_clock_info u"
  "clock_info (upd_status os f u) = clock_info u"
  by (simp_all add: upd_status_def upd_shared_def Let_def)

lemma my_status_upd_tci [simp]:
  "user_status (f (task_clock_info u)) = user_status (task_clock_info u) \<Longrightarrow>
   my_status os (upd_tci f u) = my_status os u"
  by (simp add: my_status_def)

lemma my_status_sys [simp]:
  "my_status os (u\<lparr>sys := s\<rparr>) = dci_user_status (shared os s) (user_status (task_clock_info u))"
  by (simp add: my_status_def)

lemma is_named_lowest_upd_tci [simp]:
  "user_status (f (task_clock_info u)) = user_status (task_clock_info u) \<Longrightarrow>
   is_named_lowest os (upd_tci f u) = is_named_lowest os u"
  by (simp add: is_named_lowest_def)

lemma lib_ioctl_Inr:
  "lib_ioctl os req arg u = Inr u' \<longleftrightarrow>
   (\<exists>s. sys_ioctl os (pci_fd (perf_counter (task_clock_info u))) req arg (sys u) = Inr (s, 0) \<and>
        u' = u\<lparr>sys := s\<rparr>)"
  by (auto simp: lib_ioctl_def ioctl_or_exit_Inr)

lemma lib_ioctl_info: "lib_ioctl os req arg u = Inr u' \<Longrightarrow> task_clock_info u' = task_clock_info u"
  by (auto simp: lib_ioctl_Inr)

text \<open>A record read back through the mapping is the one that was stored.\<close>

locale shared_memory =
  fixes os :: "('s, 'b) lib_os_scheme"
  assumes shared_set: "shared os (set_shared os d s) = d"
begin

lemma my_status_upd_status: "my_status os (upd_status os f u) = f (my_status os u)"
  by (simp add: my_status_def upd_status_def upd_shared_def Let_def shared_set)

lemma woke_up_Inr:
  assumes "woke_up os u = Inr u'"
  shows "\<not> disabled (task_clock_info u') \<and> us_lowest_clock (my_status os u') = 0 \<and>
    task_clock_info u' = (task_clock_info u)\<lparr>disabled := False\<rparr>"
proof -
  from assms obtain v where v: "lib_ioctl os IOC_TASK_CLOCK_WOKE_UP 0 u = Inr v"
    and u': "u' = upd_status os (\<lambda>us. us\<lparr>us_lowest_clock := 0\<rparr>) (upd_tci (\<lambda>t. t\<lparr>disabled := False\<rparr>) v)"
    by (auto simp: woke_up_def)
  then show ?thesis using lib_ioctl_info[OF v] by (simp add: my_status_upd_status)
qed

end

subsection \<open>The raw counter\<close>

lemma drop_push_small:
  assumes "n < 2 ^ 48"
  shows "drop_bit 16 (push_bit 16 (of_nat n :: u64)) = of_nat n"
proof (rule bit_word_eqI)
  fix m assume m: "m < LENGTH(64)"
  have high: "\<not> bit (of_nat n :: u64) k" if "48 \<le> k" for k
  proof -
    have "n < 2 ^ k" using assms that by (meson less_le_trans one_le_numeral power_increasing)
    then have "\<not> bit n k" by (simp add: bit_iff_odd)
    then show ?thesis by (simp add: bit_of_nat_iff)
  qed
  show "bit (drop_bit 16 (push_bit 16 (of_nat n :: u64))) m = bit (of_nat n :: u64) m"
    using m high[of m] by (cases "m < 48") (auto simp: bit_drop_bit_eq bit_push_bit_iff)
qed

lemma raw_delta_exact:
  assumes "take_bit 48 new = take_bit 48 (last_raw + of_nat n)" "n < 2 ^ 48"
  shows "raw_delta new last_raw = of_nat n"
proof -
  have "push_bit 16 new - push_bit 16 last_raw = push_bit 16 (of_nat n :: u64)"
    by (simp only: push_bit_low_bits[OF assms(1)]) (simp add: push_bit_eq_mult algebra_simps)
  then show ?thesis using drop_push_small[OF assms(2)] by (simp add: raw_delta_def)
qed

subsection \<open>A block of coarsened transactions\<close>

text \<open>
  \<open>work n\<close> stands for the process executing \<open>n\<close> instructions; other processes may run meanwhile.
  A transaction is given as the instructions executed before its start, which do not count, and
  those between its start and its stop, which do.
\<close>

fun coarsened_block ::
  "('s, 'b) lib_os_scheme \<Rightarrow> (nat \<Rightarrow> 's \<Rightarrow> 's) \<Rightarrow> u64 \<Rightarrow> (nat \<times> nat) list \<Rightarrow> 's process \<Rightarrow> 's process result" where
  "coarsened_block os work ident [] u = Inr u"
| "coarsened_block os work ident ((g, n) # ts) u =
     bindE (determ_task_clock_start_no_notify os (u\<lparr>sys := work g (sys u)\<rparr>)) (\<lambda>u.
     bindE (determ_task_clock_stop_with_id_no_notify os ident (u\<lparr>sys := work n (sys u)\<rparr>)) (\<lambda>u.
     coarsened_block os work ident ts u))"

text \<open>The instructions that count, and all that are executed.\<close>

definition counted :: "(nat \<times> nat) list \<Rightarrow> nat" where "counted ts = sum_list (map snd ts)"
definition executed :: "(nat \<times> nat) list \<Rightarrow> nat" where "executed ts = sum_list (map (\<lambda>(g, n). g + n) ts)"

lemma counted_simps [simp]: "counted [] = 0" "counted ((g, n) # ts) = n + counted ts"
  by (simp_all add: counted_def)

lemma executed_simps [simp]: "executed [] = 0" "executed ((g, n) # ts) = g + n + executed ts"
  by (simp_all add: executed_def)

lemma counted_le: "counted ts \<le> executed ts"
  by (induction ts) auto

text \<open>
  What the block relies on. \<open>room s\<close> is a number of instructions for which the value that
  \<open>rdpmc\<close> leaves in the library's variable does not wrap: up to there it moves with the
  instructions, in its low 48 bits. The request that starts a block succeeds, and the module
  then programs the counter to wrap with the instruction number \<open>2 ^ 31 - 1\<close>. \<open>kept\<close> is any view of
  the rest of the system that neither changes.
\<close>

locale coarsened_machine = shared_memory os for os :: "('s, 'b) lib_os_scheme" +
  fixes work :: "nat \<Rightarrow> 's \<Rightarrow> 's" and room :: "'s \<Rightarrow> nat" and kept :: "'s \<Rightarrow> 'k"
  assumes rdpmc_work: "n \<le> room s \<Longrightarrow>
      take_bit 48 (sys_rdpmc os r' (work n s)) = take_bit 48 (sys_rdpmc os r s + of_nat n)"
    and room_work: "room s \<le> room (work n s) + n"
    and work_kept: "kept (work n s) = kept s"
    and start_coarsened: "\<exists>s'. sys_task_clock_do os TASK_CLOCK_OP_START_COARSENED 0 s = Inr s' \<and>
      kept s' = kept s \<and> 2 ^ 31 - 2 \<le> room s'"
    and unset_lowest_kept:
      "kept (sys (upd_status os (\<lambda>us. us\<lparr>us_lowest_clock := 0\<rparr>) u)) = kept (sys u)"
begin

lemma start_coarsened_ok:
  "\<exists>u'. determ_task_clock_start_type os TASK_CLOCK_COARSENED u = Inr u' \<and>
     2 ^ 31 - 2 \<le> room (sys u') \<and>
     coarsened_ticks_counter (task_clock_info u') = coarsened_ticks_counter (task_clock_info u) \<and>
     estimator (task_clock_info u') = estimator (task_clock_info u) \<and>
     user_status (task_clock_info u') = user_status (task_clock_info u) \<and> kept (sys u') = kept (sys u)"
proof -
  define v where "v = upd_status os (\<lambda>us. us\<lparr>us_lowest_clock := 0\<rparr>) (upd_tci (\<lambda>t. t\<lparr>disabled := False\<rparr>) u)"
  have k: "kept (sys v) = kept (sys u)"
    using unset_lowest_kept[of "upd_tci (\<lambda>t. t\<lparr>disabled := False\<rparr>) u"] by (simp add: v_def)
  obtain s' where "sys_task_clock_do os TASK_CLOCK_OP_START_COARSENED 0 (sys v) = Inr s'"
    "kept s' = kept (sys v)" "2 ^ 31 - 2 \<le> room s'"
    using start_coarsened by blast
  with k show ?thesis
    by (simp add: determ_task_clock_start_type_def Let_def sys_task_clock_do_call_def v_def[symmetric])
      (simp add: v_def)
qed

lemma start_no_notify_ok:
  "\<exists>u' r. determ_task_clock_start_no_notify os u = Inr u' \<and> in_coarsened_tx (task_clock_info u') \<and>
     (if in_coarsened_tx (task_clock_info u) then room (sys u') = room (sys u) else 2 ^ 31 - 2 \<le> room (sys u')) \<and>
     last_raw_perf (task_clock_info u') = sys_rdpmc os r (sys u') \<and>
     coarsened_ticks_counter (task_clock_info u') = coarsened_ticks_counter (task_clock_info u) \<and>
     estimator (task_clock_info u') = estimator (task_clock_info u) \<and>
     user_status (task_clock_info u') = user_status (task_clock_info u) \<and> kept (sys u') = kept (sys u)"
proof (cases "in_coarsened_tx (task_clock_info u)")
  case True
  then show ?thesis by (auto simp: determ_task_clock_start_no_notify_def rdpmc_def)
next
  case False
  from start_coarsened_ok[of u] obtain u' where
    "determ_task_clock_start_type os TASK_CLOCK_COARSENED u = Inr u'" "2 ^ 31 - 2 \<le> room (sys u')"
    "coarsened_ticks_counter (task_clock_info u') = coarsened_ticks_counter (task_clock_info u)"
    "estimator (task_clock_info u') = estimator (task_clock_info u)"
    "user_status (task_clock_info u') = user_status (task_clock_info u)" "kept (sys u') = kept (sys u)" by blast
  with False show ?thesis by (auto simp: determ_task_clock_start_no_notify_def rdpmc_def)
qed

lemma stop_no_notify_ok:
  assumes raw: "last_raw_perf (task_clock_info u) = sys_rdpmc os r s"
    and n: "sys u = work n s" "n \<le> room s" "n \<le> B" "B \<le> 2 ^ 22"
    and ok: "tx_ok B k (estimator (task_clock_info u) (tx_get_entry ident))"
  shows "\<exists>u'. determ_task_clock_stop_with_id_no_notify os ident u = Inr u' \<and> sys u' = sys u \<and>
     in_coarsened_tx (task_clock_info u') = in_coarsened_tx (task_clock_info u) \<and>
     coarsened_ticks_counter (task_clock_info u') = coarsened_ticks_counter (task_clock_info u) + of_nat n \<and>
     user_status (task_clock_info u') = user_status (task_clock_info u) \<and>
     tx_ok B (Suc k) (estimator (task_clock_info u') (tx_get_entry ident))"
proof -
  let ?new = "rdpmc os (us_hwc_idx (my_status os u)) u"
  have small: "n < 2 ^ 48" using n(3,4) by simp
  have "take_bit 48 ?new = take_bit 48 (last_raw_perf (task_clock_info u) + of_nat n)"
    unfolding rdpmc_def n(1) raw by (rule rdpmc_work[OF n(2)])
  then have d: "raw_delta ?new (last_raw_perf (task_clock_info u)) = of_nat n"
    using small by (rule raw_delta_exact)
  have "unat (of_nat n :: u64) \<le> B"
    using n(3) small by (simp add: unat_of_nat_64)
  from tx_ok_add[where B = B and n = k and txe = "estimator (task_clock_info u)" and t = "of_nat n", OF ok this n(4)]
  obtain txe where "tx_estimate_add_observation (estimator (task_clock_info u)) ident (of_nat n) = Inr txe"
    "tx_ok B (Suc k) (txe (tx_get_entry ident))" by blast
  with d show ?thesis
    by (simp add: determ_task_clock_stop_with_id_no_notify_def determ_task_clock_stop_type_def tc_macro Let_def)
qed

lemma coarsened_block_ok:
  assumes "\<forall>(g, n)\<in>set ts. n \<le> B" "B \<le> 2 ^ 22" "executed ts < 2 ^ 31 - 1"
    and "in_coarsened_tx (task_clock_info u) \<longrightarrow> executed ts \<le> room (sys u)"
    and "tx_ok B k (estimator (task_clock_info u) (tx_get_entry ident))"
  shows "\<exists>u'. coarsened_block os work ident ts u = Inr u' \<and>
     coarsened_ticks_counter (task_clock_info u') = coarsened_ticks_counter (task_clock_info u) + of_nat (counted ts) \<and>
     user_status (task_clock_info u') = user_status (task_clock_info u) \<and> kept (sys u') = kept (sys u)"
  using assms(1,3-5)
proof (induction ts arbitrary: u k)
  case Nil
  then show ?case by simp
next
  case (Cons t ts)
  obtain g n where t: "t = (g, n)" by (cases t)
  let ?u = "u\<lparr>sys := work g (sys u)\<rparr>"
  from start_no_notify_ok[of ?u] obtain v r where v: "determ_task_clock_start_no_notify os ?u = Inr v"
    "in_coarsened_tx (task_clock_info v)" "last_raw_perf (task_clock_info v) = sys_rdpmc os r (sys v)"
    "if in_coarsened_tx (task_clock_info ?u) then room (sys v) = room (sys ?u) else 2 ^ 31 - 2 \<le> room (sys v)"
    "coarsened_ticks_counter (task_clock_info v) = coarsened_ticks_counter (task_clock_info ?u)"
    "estimator (task_clock_info v) = estimator (task_clock_info ?u)"
    "user_status (task_clock_info v) = user_status (task_clock_info ?u)" "kept (sys v) = kept (sys ?u)" by blast
  have room: "n + executed ts \<le> room (sys v)"
    using v(4) Cons.prems(2,3) room_work[of "sys u" g] by (simp add: t split: if_splits)
  let ?v = "v\<lparr>sys := work n (sys v)\<rparr>"
  have "\<exists>w. determ_task_clock_stop_with_id_no_notify os ident ?v = Inr w \<and> sys w = sys ?v \<and>
     in_coarsened_tx (task_clock_info w) = in_coarsened_tx (task_clock_info ?v) \<and>
     coarsened_ticks_counter (task_clock_info w) = coarsened_ticks_counter (task_clock_info ?v) + of_nat n \<and>
     user_status (task_clock_info w) = user_status (task_clock_info ?v) \<and>
     tx_ok B (Suc k) (estimator (task_clock_info w) (tx_get_entry ident))"
    using v room Cons.prems assms(2) by (intro stop_no_notify_ok[where s = "sys v" and r = r]) (simp_all add: t)
  then obtain w where w: "determ_task_clock_stop_with_id_no_notify os ident ?v = Inr w"
    "sys w = work n (sys v)"
    "coarsened_ticks_counter (task_clock_info w) = coarsened_ticks_counter (task_clock_info u) + of_nat n"
    "user_status (task_clock_info w) = user_status (task_clock_info u)"
    "tx_ok B (Suc k) (estimator (task_clock_info w) (tx_get_entry ident))" using v by auto
  have "executed ts \<le> room (sys w)" using room room_work[of "sys v" n] w(2) by simp
  with Cons.IH[OF _ _ _ w(5)] Cons.prems obtain x where x: "coarsened_block os work ident ts w = Inr x"
    "coarsened_ticks_counter (task_clock_info x) = coarsened_ticks_counter (task_clock_info w) + of_nat (counted ts)"
    "user_status (task_clock_info x) = user_status (task_clock_info w)" "kept (sys x) = kept (sys w)"
    by (auto simp: t)
  have "kept (sys w) = kept (sys u)" using w v by (simp add: work_kept)
  with x v(1) w show ?case by (simp add: t)
qed

end

subsection \<open>Waiting for the lowest clock\<close>

lemma spin_lowest_info [simp]: "task_clock_info (spin_lowest os n u) = task_clock_info u"
proof (induction n arbitrary: u)
  case 0
  then show ?case by (simp add: spin_lowest.simps[of os 0])
next
  case (Suc n)
  then show ?case by (simp add: spin_lowest.simps[of os "Suc n"])
qed

lemma lib_ioctl_Inl:
  "lib_ioctl os req arg u = Inl e \<Longrightarrow>
   \<forall>s. sys_ioctl os (pci_fd (perf_counter (task_clock_info u))) req arg (sys u) \<noteq> Inr (s, 0)"
  by (auto simp: lib_ioctl_def ioctl_or_exit_def)

text \<open>A request on descriptor \<open>fd\<close> that does not come back with the status 0.\<close>

definition request_fails :: "('s, 'b) lib_os_scheme \<Rightarrow> int \<Rightarrow> perf_event_ioc \<Rightarrow> bool" where
  "request_fails os fd req \<longleftrightarrow> (\<exists>s. \<forall>s'. sys_ioctl os fd req 0 s \<noteq> Inr (s', 0))"

lemma lib_ioctl_fails:
  "lib_ioctl os req 0 u = Inl e \<Longrightarrow> request_fails os (pci_fd (perf_counter (task_clock_info u))) req"
  using lib_ioctl_Inl[of os req 0 u e] by (auto simp: request_fails_def)

text \<open>
  What lets a process out of its wait: it sees itself named, or it comes back from \<open>poll\<close>, which
  it enters only when it was not named before and after its request to be put to sleep.
\<close>

definition let_out :: "('s, 'b) lib_os_scheme \<Rightarrow> 's process \<Rightarrow> bool" where
  "let_out os u \<longleftrightarrow> is_named_lowest os u \<or>
     (\<exists>y x. \<not> is_named_lowest os y \<and> lib_ioctl os IOC_TASK_CLOCK_SLEEP 0 y = Inr x \<and> \<not> is_named_lowest os x \<and>
        u = x\<lparr>sys := sys_poll os (pci_fd (perf_counter (task_clock_info x))) (sys x)\<rparr>)"

lemma sleep_until_lowest_cases:
  "case sleep_until_lowest os u of
      Inl e \<Rightarrow> request_fails os (pci_fd (perf_counter (task_clock_info u))) IOC_TASK_CLOCK_SLEEP
    | Inr v \<Rightarrow> let_out os v \<and> task_clock_info v = task_clock_info u"
proof (cases "is_named_lowest os u")
  case True
  then show ?thesis by (simp add: sleep_until_lowest_def let_out_def)
next
  case False
  show ?thesis
  proof (cases "lib_ioctl os IOC_TASK_CLOCK_SLEEP 0 u")
    case (Inl e)
    with False show ?thesis by (simp add: sleep_until_lowest_def lib_ioctl_fails)
  next
    case (Inr v)
    with False have "let_out os (if is_named_lowest os v then v
        else v\<lparr>sys := sys_poll os (pci_fd (perf_counter (task_clock_info v))) (sys v)\<rparr>)"
      unfolding let_out_def by auto
    with False Inr lib_ioctl_info[OF Inr] show ?thesis by (auto simp: sleep_until_lowest_def)
  qed
qed

text \<open>
  C15: a process leaves the wait for the lowest clock only after it has seen itself named
  in its page or has come back from \<open>poll\<close>, for whatever reason \<open>poll\<close> returned; and it polls
  only when it was not named before and after its request to be put to sleep. It then reports
  twice that it woke up, and returns with its clock enabled, the flag
  taken back, and the answer whether it had been polling before. The wait ends in the process's
  exit only if one of its three requests fails.
\<close>

theorem is_lowest_wait_protocol:
  assumes "shared_memory os"
  shows "case determ_task_clock_is_lowest_wait os u of
      Inl e \<Rightarrow> \<exists>req\<in>{IOC_TASK_CLOCK_WAIT, IOC_TASK_CLOCK_SLEEP, IOC_TASK_CLOCK_WOKE_UP}.
        request_fails os (pci_fd (perf_counter (task_clock_info u))) req
    | Inr (u', polled) \<Rightarrow>
        polled = disabled (task_clock_info u) \<and> \<not> disabled (task_clock_info u') \<and>
        us_lowest_clock (my_status os u') = 0 \<and>
        (\<exists>u1 u2. let_out os u1 \<and> disabled (task_clock_info u1) \<and>
           lib_ioctl os IOC_TASK_CLOCK_WOKE_UP 0 u1 = Inr u2 \<and> woke_up os u2 = Inr u')"
proof (cases "lib_ioctl os IOC_TASK_CLOCK_WAIT 0 u")
  case (Inl e)
  then show ?thesis by (simp add: determ_task_clock_is_lowest_wait_def Let_def lib_ioctl_fails)
next
  case (Inr v)
  let ?w = "spin_lowest os MAX_SPIN_INT (upd_tci (\<lambda>t. t\<lparr>disabled := True\<rparr>) v)"
  have info: "task_clock_info ?w = (task_clock_info u)\<lparr>disabled := True\<rparr>"
    using lib_ioctl_info[OF Inr] by simp
  from sleep_until_lowest_cases[of os ?w] have sl: "case sleep_until_lowest os ?w of
      Inl e \<Rightarrow> request_fails os (pci_fd (perf_counter (task_clock_info u))) IOC_TASK_CLOCK_SLEEP
    | Inr v \<Rightarrow> let_out os v \<and> task_clock_info v = (task_clock_info u)\<lparr>disabled := True\<rparr>"
    unfolding info by (simp split: sum.splits)
  show ?thesis
  proof (cases "sleep_until_lowest os ?w")
    case Inl
    with sl Inr show ?thesis by (simp add: determ_task_clock_is_lowest_wait_def Let_def)
  next
    case (Inr u1)
    with sl have u1: "let_out os u1" "task_clock_info u1 = (task_clock_info u)\<lparr>disabled := True\<rparr>" by auto
    note step1 = \<open>lib_ioctl os IOC_TASK_CLOCK_WAIT 0 u = Inr v\<close> Inr
    show ?thesis
    proof (cases "lib_ioctl os IOC_TASK_CLOCK_WOKE_UP 0 u1")
      case Inl
      with step1 u1 lib_ioctl_fails[OF Inl] show ?thesis
        by (simp add: determ_task_clock_is_lowest_wait_def Let_def)
    next
      case (Inr u2)
      note step2 = this
      show ?thesis
      proof (cases "woke_up os u2")
        case (Inl e)
        then have "lib_ioctl os IOC_TASK_CLOCK_WOKE_UP 0 u2 = Inl e"
          by (cases "lib_ioctl os IOC_TASK_CLOCK_WOKE_UP 0 u2") (simp_all add: woke_up_def)
        from lib_ioctl_fails[OF this] lib_ioctl_info[OF step2] u1 step1 step2 Inl show ?thesis
          by (simp add: determ_task_clock_is_lowest_wait_def Let_def)
      next
        case (Inr u')
        from shared_memory.woke_up_Inr[OF assms(1) this] step1 step2 u1 Inr show ?thesis
          by (auto simp: determ_task_clock_is_lowest_wait_def Let_def)
      qed
    qed
  qed
qed

text \<open>
  Nothing in the wait itself looks at the flag again after \<open>poll\<close>, whose result is dropped: when
  \<open>poll\<close> is interrupted, the wait returns as if the process had been named.
\<close>

lemma is_lowest_wait_ignores_interrupted_poll:
  assumes "\<And>req s. \<exists>s'. sys_ioctl os fd req 0 s = Inr (s', 0)"
    and "\<And>s. us_lowest_clock (dci_user_status (shared os s) i) = 0"
    and "pci_fd (perf_counter (task_clock_info u)) = fd" "user_status (task_clock_info u) = i"
  shows "\<exists>u'. determ_task_clock_is_lowest_wait os u = Inr (u', disabled (task_clock_info u))"
proof -
  have ok: "\<exists>v. lib_ioctl os req 0 u = Inr v \<and> task_clock_info v = task_clock_info u"
    if "pci_fd (perf_counter (task_clock_info u)) = fd" for req u
  proof -
    obtain s where "sys_ioctl os fd req 0 (sys u) = Inr (s, 0)" using assms(1) by blast
    with that have "lib_ioctl os req 0 u = Inr (u\<lparr>sys := s\<rparr>)" by (simp add: lib_ioctl_Inr)
    then show ?thesis by simp
  qed
  have never: "\<not> is_named_lowest os u" if "user_status (task_clock_info u) = i" for u
    using assms(2)[of "sys u"] that by (simp add: is_named_lowest_def my_status_def)
  obtain v where v: "lib_ioctl os IOC_TASK_CLOCK_WAIT 0 u = Inr v" "task_clock_info v = task_clock_info u"
    using ok[OF assms(3)] by blast
  define w where "w = spin_lowest os MAX_SPIN_INT (upd_tci (\<lambda>t. t\<lparr>disabled := True\<rparr>) v)"
  have w: "pci_fd (perf_counter (task_clock_info w)) = fd" "user_status (task_clock_info w) = i"
    using v(2) assms(3,4) by (simp_all add: w_def)
  obtain x where x: "lib_ioctl os IOC_TASK_CLOCK_SLEEP 0 w = Inr x" "task_clock_info x = task_clock_info w"
    using ok[OF w(1)] by blast
  define y where "y = x\<lparr>sys := sys_poll os fd (sys x)\<rparr>"
  have sl: "sleep_until_lowest os w = Inr y"
    using never w x by (simp add: sleep_until_lowest_def y_def)
  have "pci_fd (perf_counter (task_clock_info y)) = fd" using w x by (simp add: y_def)
  from ok[OF this] obtain z where z: "lib_ioctl os IOC_TASK_CLOCK_WOKE_UP 0 y = Inr z"
    "task_clock_info z = task_clock_info y" by blast
  with w x have "pci_fd (perf_counter (task_clock_info z)) = fd" by (simp add: y_def)
  from ok[OF this] obtain a where "lib_ioctl os IOC_TASK_CLOCK_WOKE_UP 0 z = Inr a" by blast
  then obtain u' where "woke_up os z = Inr u'" by (simp add: woke_up_def)
  with v sl z show ?thesis by (simp add: determ_task_clock_is_lowest_wait_def Let_def w_def)
qed

subsection \<open>Setting up the shared file\<close>

text \<open>
  C40: a file that cannot be made ends the process with its message. A
  mapping that fails does not: \<open>mmap\<close> reports it as \<open>MAP_FAILED\<close>, the code compares with
  \<open>NULL\<close>, the failure value is returned as the address of the shared memory, and the
  constructor faults on its first store through it.
\<close>

theorem failed_mapping_goes_unnoticed:
  assumes "\<forall>n fd s. snd (sys_mmap os n fd s) = MAP_FAILED"
  shows "if fst (snd (sys_mkstemp os ''TASK_CLOCK_XXXXXX'' (sys u))) = -1
    then determ_clock_init os u = Inl Exit
    else (\<exists>name s. create_shared_mem os (sys u) = Inr (MAP_FAILED, name, s)) \<and>
         determ_clock_init os u = Inl OutOfBounds"
proof -
  have m: "\<exists>s'. sys_mmap os n fd s = (s', MAP_FAILED)" for n fd s
    using assms by (metis prod.collapse)
  have nz: "MAP_FAILED \<noteq> 0" by (simp add: MAP_FAILED_def)
  obtain s fd name where mk: "sys_mkstemp os ''TASK_CLOCK_XXXXXX'' (sys u) = (s, fd, name)"
    by (cases "sys_mkstemp os ''TASK_CLOCK_XXXXXX'' (sys u)") auto
  show ?thesis
  proof (cases "fd = -1")
    case True
    with mk show ?thesis by (simp add: determ_clock_init_def create_shared_mem_def)
  next
    case False
    obtain s' where "sys_mmap os sizeof_determ_clock_info fd
        (sys_ftruncate os fd sizeof_determ_clock_info s) = (s', MAP_FAILED)" using m by blast
    with mk False nz show ?thesis
      by (simp add: determ_clock_init_def create_shared_mem_def Let_def mapped_def)
  qed
qed

end
