(* ===== verification/Library_Kernel.thy ===== *)
theory Library_Kernel
  imports Determ_Clock_Properties Clock_Runs
begin

text \<open>
  The user library on top of the kernel module. How a request on the descriptor reaches a
  handler of \<open>clock_main.c\<close> is code of the patched kernel, which is not part of the repository:
  the locale \<open>task_clock_module\<close> states it, one law per request, together with the fact that
  library and module look at the same status records. The locale is interpreted on the model
  of the module.
\<close>

subsection \<open>What the module does with a request to wait\<close>

lemma entry_wait_verdict:
  assumes rep: "la_rep (active_threads s) xs" and ok: "\<not> in_nmi E" "0 \<le> cur E"
    and w: "task_clock_entry_wait E s = Inr t"
  shows "(us_lowest_clock (ustat t (cur E)) \<noteq> 0 \<longrightarrow>
            current_is_only_active_thread E s \<or> least_of s {i \<in> set xs. candidate s i} (cur E)) \<and>
         (us_lowest_clock (ustat t (cur E)) = 0 \<longrightarrow> waiting (clocks t (cur E)))"
proof -
  from w obtain v l where d: "determine_lowest_and_notify_or_wait E s = Inr (v, l)"
    and wk: "wake_if (v, l) = Inr t"
    by (cases "determine_lowest_and_notify_or_wait E s") (auto simp: task_clock_entry_wait_def)
  from determine_verdict[OF rep ok d] obtain c where c: "verdict_ok E xs s v l c"
    "if is_named c then named_state E v else waiting_state E s v" by blast
  show ?thesis
  proof (cases "is_named c")
    case True
    with c have "l = -1" "current_is_only_active_thread E s \<or> least_of s {i \<in> set xs. candidate s i} (cur E)"
      by (cases c; simp add: verdict_ok_def)+
    moreover from this wk have "t = v" by (simp add: wake_if_nobody)
    ultimately show ?thesis using c True by (simp add: named_state_def)
  next
    case False
    with c have wt: "waiting (clocks v (cur E))" "us_lowest_clock (ustat v (cur E)) = 0"
      by (simp_all add: waiting_state_def)
    from c False have "lowest_tid v \<noteq> cur E" by (cases c; simp add: verdict_ok_def)
    then have "ustat t (cur E) = ustat v (cur E)" using wake_if_ustat_other[OF wk] by simp
    with wt wake_if_frame(4)[OF wk] show ?thesis by simp
  qed
qed

lemma start_no_notify_keeps_clock:
  "get_clock_ticks (task_clock_entry_start_no_notify E s) i = get_clock_ticks s i"
  "us_ticks (ustat (task_clock_entry_start_no_notify E s) i) = us_ticks (ustat s i)"
  by (simp_all add: task_clock_entry_start_no_notify_def logical_clock_reset_current_ticks_def
      ic_reset_current_ticks_def logical_clock_set_perf_counter_max_def ic_set_perf_counter_max_def
      program_counter_def read_performance_counter_def logical_clock_no_ticks_def upd_event_def
      upd_hw_def get_clock_ticks_def tc_macro Let_def split: prod.split)

subsection \<open>The interface\<close>

text \<open>\<open>get\<close> and \<open>put\<close> are the module's part of the world.\<close>

locale task_clock_module = shared_memory os for os :: "('s, 'b) lib_os_scheme" +
  fixes E :: env and get :: "'s \<Rightarrow> kstate" and put :: "kstate \<Rightarrow> 's \<Rightarrow> 's"
  assumes get_put: "get (put t s) = t"
    and status_get: "dci_user_status (shared os s) i = ustat (get s) (int i)"
    and status_set: "get (set_shared os d s) =
      (get s)\<lparr>ustat := (\<lambda>i. if 0 \<le> i then dci_user_status d (nat i) else ustat (get s) i)\<rparr>"
    and req_wait: "sys_ioctl os fd IOC_TASK_CLOCK_WAIT arg s =
      bindE (task_clock_entry_wait E (get s)) (\<lambda>t. Inr (put t s, 0))"
    and req_woke_up: "sys_ioctl os fd IOC_TASK_CLOCK_WOKE_UP arg s =
      Inr (put (task_clock_entry_woke_up E (get s)) s, 0)"
    and req_add_ticks: "sys_ioctl os fd IOC_TASK_CLOCK_ADD_TICKS arg s =
      bindE (task_clock_add_ticks E (get s) arg) (\<lambda>t. Inr (put t s, 0))"
    and req_start_coarsened: "\<exists>t. sys_task_clock_do os TASK_CLOCK_OP_START_COARSENED arg64 s = Inr t \<and>
      get t = task_clock_entry_start_no_notify E (get s)"
begin

lemma my_status_get: "my_status os u = ustat (get (sys u)) (int (user_status (task_clock_info u)))"
  by (simp add: my_status_def status_get)

lemma get_upd_status:
  "get (sys (upd_status os f u)) =
   upd_ustat (int (user_status (task_clock_info u))) f (get (sys u))"
proof -
  have "nat i = n \<longleftrightarrow> i = int n" if "0 \<le> i" for i n using that by auto
  then show ?thesis
    by (simp add: upd_status_def upd_shared_def Let_def status_set status_get upd_ustat_def fun_eq_iff
        cong: if_cong)
qed

lemma lib_wait:
  "lib_ioctl os IOC_TASK_CLOCK_WAIT 0 u =
   bindE (task_clock_entry_wait E (get (sys u))) (\<lambda>t. Inr (u\<lparr>sys := put t (sys u)\<rparr>))"
  by (cases "task_clock_entry_wait E (get (sys u))")
    (simp_all add: lib_ioctl_def ioctl_or_exit_def req_wait)

lemma lib_report:
  "lib_ioctl os IOC_TASK_CLOCK_WOKE_UP 0 u =
   Inr (u\<lparr>sys := put (task_clock_entry_woke_up E (get (sys u))) (sys u)\<rparr>)"
  by (simp add: lib_ioctl_def ioctl_or_exit_def req_woke_up)

lemma lib_woke_up:
  "woke_up os u =
   Inr (upd_status os (\<lambda>us. us\<lparr>us_lowest_clock := 0\<rparr>) (upd_tci (\<lambda>t. t\<lparr>disabled := False\<rparr>)
     (u\<lparr>sys := put (task_clock_entry_woke_up E (get (sys u))) (sys u)\<rparr>)))"
  by (simp add: woke_up_def lib_report)

lemma lib_add_ticks:
  "determ_task_clock_add_ticks os n u =
   bindE (task_clock_add_ticks E (get (sys u)) n) (\<lambda>t. Inr (u\<lparr>sys := put t (sys u)\<rparr>))"
  by (cases "task_clock_add_ticks E (get (sys u)) n")
    (simp_all add: determ_task_clock_add_ticks_def lib_ioctl_def ioctl_or_exit_def req_add_ticks)

text \<open>Asking whether the clock is the lowest.\<close>

lemma is_lowest_asks:
  assumes rep: "la_rep (active_threads (get (sys u))) xs" and ok: "\<not> in_nmi E" "0 \<le> cur E"
    and me: "cur E = int (user_status (task_clock_info u))"
    and en: "\<not> disabled (task_clock_info u)" "\<not> is_named_lowest os u"
    and r: "determ_task_clock_is_lowest os u = Inr (u', r)"
  shows "r = 1 \<and> \<not> disabled (task_clock_info u') \<and> us_lowest_clock (my_status os u') = 0 \<and>
           (current_is_only_active_thread E (get (sys u)) \<or>
            least_of (get (sys u)) {i \<in> set xs. candidate (get (sys u)) i} (cur E)) \<or>
         r = 0 \<and> disabled (task_clock_info u') \<and> waiting (clocks (get (sys u')) (cur E))"
proof -
  from r en obtain t where t: "task_clock_entry_wait E (get (sys u)) = Inr t"
    and r': "(let u = upd_tci (\<lambda>t. t\<lparr>disabled := True\<rparr>) (u\<lparr>sys := put t (sys u)\<rparr>)
      in if is_named_lowest os u then bindE (woke_up os u) (\<lambda>u. Inr (u, 1)) else Inr (u, 0)) =
      (Inr (u', r) :: ('s process \<times> int) result)"
    by (cases "task_clock_entry_wait E (get (sys u))")
      (simp_all add: determ_task_clock_is_lowest_def lib_wait Let_def)
  note verdict = entry_wait_verdict[OF rep ok t]
  have nm: "is_named_lowest os (upd_tci (\<lambda>t. t\<lparr>disabled := True\<rparr>) (u\<lparr>sys := put t (sys u)\<rparr>)) \<longleftrightarrow>
      us_lowest_clock (ustat t (cur E)) \<noteq> 0"
    by (simp add: is_named_lowest_def me status_get get_put)
  show ?thesis
  proof (cases "us_lowest_clock (ustat t (cur E)) = 0")
    case True
    with r' nm have "u' = upd_tci (\<lambda>t. t\<lparr>disabled := True\<rparr>) (u\<lparr>sys := put t (sys u)\<rparr>)" "r = 0"
      by (simp_all add: Let_def)
    with verdict True show ?thesis by (simp add: get_put)
  next
    case False
    with r' nm have "r = 1" "\<not> disabled (task_clock_info u')" "us_lowest_clock (my_status os u') = 0"
      by (auto simp: Let_def lib_woke_up my_status_upd_status)
    with verdict False show ?thesis by blast
  qed
qed

text \<open>The page is read without asking when the clock is disabled or the flag is already set.\<close>

lemma is_lowest_from_page:
  assumes page: "disabled (task_clock_info u) \<or> is_named_lowest os u"
    and r: "determ_task_clock_is_lowest os u = Inr (u', r)"
  shows "if is_named_lowest os u
    then r = 1 \<and> \<not> disabled (task_clock_info u') \<and> us_lowest_clock (my_status os u') = 0 \<and>
         get_clock_ticks (get (sys u')) = get_clock_ticks (get (sys u))
    else r = 0 \<and> u' = u"
proof (cases "is_named_lowest os u")
  case True
  have "get_clock_ticks (upd_ustat i f (task_clock_entry_woke_up E s)) = get_clock_ticks s" for i f s
    by (auto simp: task_clock_entry_woke_up_def get_clock_ticks_def fun_eq_iff)
  with True r show ?thesis
    by (auto simp: determ_task_clock_is_lowest_def lib_woke_up my_status_upd_status get_upd_status get_put)
next
  case False
  with page r show ?thesis by (auto simp: determ_task_clock_is_lowest_def)
qed

text \<open>Settling the ticks of a coarsened block.\<close>

lemma end_coarsened_clock:
  assumes me: "cur E = int (user_status (task_clock_info u))"
    and pub: "us_ticks (my_status os u) = get_clock_ticks (get (sys u)) (cur E)"
    and r: "determ_task_clock_end_coarsened_tx os u = Inr u'"
  defines "c \<equiv> coarsened_ticks_counter (task_clock_info u)"
  shows "get_clock_ticks (get (sys u')) (cur E) = get_clock_ticks (get (sys u)) (cur E) + scast (ucast c :: u32)"
    "determ_task_clock_read os u' = get_clock_ticks (get (sys u')) (cur E)"
    "coarsened_ticks_counter (task_clock_info u') = 0" "\<not> in_coarsened_tx (task_clock_info u')"
proof -
  let ?fin = "\<lambda>u. upd_tci (\<lambda>t. t\<lparr>in_coarsened_tx := False, coarsened_ticks_counter := 0\<rparr>) u"
  have "u' = ?fin u \<and> c = 0 \<or>
    (\<exists>t. task_clock_add_ticks E (get (sys u)) (ucast c) = Inr t \<and> u' = ?fin (u\<lparr>sys := put t (sys u)\<rparr>))"
  proof (cases "c = 0")
    case True
    with r show ?thesis by (simp add: determ_task_clock_end_coarsened_tx_def c_def)
  next
    case False
    then have "0 < c" by (simp add: word_gt_0)
    with r show ?thesis
      by (auto simp: determ_task_clock_end_coarsened_tx_def c_def[symmetric] lib_add_ticks)
  qed
  then have all: "get_clock_ticks (get (sys u')) (cur E) =
      get_clock_ticks (get (sys u)) (cur E) + scast (ucast c :: u32) \<and>
    determ_task_clock_read os u' = get_clock_ticks (get (sys u')) (cur E) \<and>
    coarsened_ticks_counter (task_clock_info u') = 0 \<and> \<not> in_coarsened_tx (task_clock_info u')"
  proof (elim disjE exE conjE)
    assume "u' = ?fin u" "c = 0"
    with pub show ?thesis by (simp add: determ_task_clock_read_def)
  next
    fix t assume t: "task_clock_add_ticks E (get (sys u)) (ucast c) = Inr t"
      and u': "u' = ?fin (u\<lparr>sys := put t (sys u)\<rparr>)"
    from add_ticks_effect(3,4)[OF t] u' me show ?thesis
      by (simp add: determ_task_clock_read_def status_get get_put)
  qed
  then show "get_clock_ticks (get (sys u')) (cur E) =
      get_clock_ticks (get (sys u)) (cur E) + scast (ucast c :: u32)"
    "determ_task_clock_read os u' = get_clock_ticks (get (sys u')) (cur E)"
    "coarsened_ticks_counter (task_clock_info u') = 0" "\<not> in_coarsened_tx (task_clock_info u')"
    by blast+
qed

end

text \<open>
  With a counter that counts the process's instructions: executing them moves neither the
  process's clock (it is off during a coarsened block) nor the ticks published in its page. The
  handler that starts a block programs the counter to overflow after \<open>2 ^ 31 - 1\<close> instructions
  (\<open>ic_set_perf_counter_max\<close>), so its low 32 bits do not wrap before: that is all that
  \<open>rdpmc\<close> is asked to show.
\<close>

locale coarsened_module = task_clock_module os E get put
  for os :: "('s, 'b) lib_os_scheme" and E and get and put +
  fixes work :: "nat \<Rightarrow> 's \<Rightarrow> 's" and room :: "'s \<Rightarrow> nat"
  assumes rdpmc_counts: "n \<le> room s \<Longrightarrow>
      take_bit 48 (sys_rdpmc os r' (work n s)) = take_bit 48 (sys_rdpmc os r s + of_nat n)"
    and room_shrinks: "room s \<le> room (work n s) + n"
    and room_programmed: "sys_task_clock_do os TASK_CLOCK_OP_START_COARSENED a s = Inr t \<Longrightarrow> 2 ^ 31 - 2 \<le> room t"
    and work_clock: "get_clock_ticks (get (work n s)) (cur E) = get_clock_ticks (get s) (cur E)"
    and work_page: "us_ticks (ustat (get (work n s)) (cur E)) = us_ticks (ustat (get s) (cur E))"

sublocale coarsened_module \<subseteq> cm: coarsened_machine os work room
  "\<lambda>s. (get_clock_ticks (get s) (cur E), us_ticks (ustat (get s) (cur E)))"
proof unfold_locales
  show "(get_clock_ticks (get (sys (upd_status os (\<lambda>us. us\<lparr>us_lowest_clock := 0\<rparr>) u))) (cur E),
        us_ticks (ustat (get (sys (upd_status os (\<lambda>us. us\<lparr>us_lowest_clock := 0\<rparr>) u))) (cur E))) =
       (get_clock_ticks (get (sys u)) (cur E), us_ticks (ustat (get (sys u)) (cur E)))" for u
    by (simp add: get_upd_status get_clock_ticks_def)
  show "\<exists>s'. sys_task_clock_do os TASK_CLOCK_OP_START_COARSENED 0 s = Inr s' \<and>
      (get_clock_ticks (get s') (cur E), us_ticks (ustat (get s') (cur E))) =
      (get_clock_ticks (get s) (cur E), us_ticks (ustat (get s) (cur E))) \<and> 2 ^ 31 - 2 \<le> room s'" for s
    using room_programmed[of 0 s] req_start_coarsened[of 0 s] by (auto simp: start_no_notify_keeps_clock)
qed (use rdpmc_counts room_shrinks work_clock work_page in auto)

context coarsened_module begin

lemma block_then_end:
  assumes me: "cur E = int (user_status (task_clock_info u))"
    and pub: "us_ticks (my_status os u) = get_clock_ticks (get (sys u)) (cur E)"
    and z: "coarsened_ticks_counter (task_clock_info u) = 0"
    and nc: "\<not> in_coarsened_tx (task_clock_info u)"
    and ts: "\<forall>(g, n)\<in>set ts. n \<le> B" "B \<le> 2 ^ 22" "executed ts < 2 ^ 31 - 1"
    and ok: "tx_ok B k (estimator (task_clock_info u) (tx_get_entry ident))"
  shows "\<exists>u1. coarsened_block os work ident ts u = Inr u1 \<and>
    determ_task_clock_read os u1 = get_clock_ticks (get (sys u)) (cur E) + of_nat (counted ts) \<and>
    (\<forall>u2. determ_task_clock_end_coarsened_tx os u1 = Inr u2 \<longrightarrow>
       determ_task_clock_read os u2 = determ_task_clock_read os u1 \<and>
       get_clock_ticks (get (sys u2)) (cur E) =
         get_clock_ticks (get (sys u)) (cur E) + of_nat (counted ts) \<and>
       coarsened_ticks_counter (task_clock_info u2) = 0 \<and> \<not> in_coarsened_tx (task_clock_info u2))"
proof -
  from cm.coarsened_block_ok[OF ts _ ok] z nc obtain u1 where b: "coarsened_block os work ident ts u = Inr u1"
    and c: "coarsened_ticks_counter (task_clock_info u1) = of_nat (counted ts)"
    and i: "user_status (task_clock_info u1) = user_status (task_clock_info u)"
    and k: "get_clock_ticks (get (sys u1)) (cur E) = get_clock_ticks (get (sys u)) (cur E)"
      "us_ticks (ustat (get (sys u1)) (cur E)) = us_ticks (ustat (get (sys u)) (cur E))" by auto
  have me1: "cur E = int (user_status (task_clock_info u1))" using me i by simp
  have pub1: "us_ticks (my_status os u1) = get_clock_ticks (get (sys u1)) (cur E)"
    using pub k me me1 by (simp add: my_status_get)
  have rd: "determ_task_clock_read os u1 = get_clock_ticks (get (sys u)) (cur E) + of_nat (counted ts)"
    using pub1 c k by (simp add: determ_task_clock_read_def)
  have s: "scast (ucast (of_nat (counted ts) :: u64) :: u32) = (of_nat (counted ts) :: u64)"
    using ts(3) counted_le[of ts] by (intro int32_of_nat) simp
  have "\<forall>u2. determ_task_clock_end_coarsened_tx os u1 = Inr u2 \<longrightarrow>
       determ_task_clock_read os u2 = determ_task_clock_read os u1 \<and>
       get_clock_ticks (get (sys u2)) (cur E) =
         get_clock_ticks (get (sys u)) (cur E) + of_nat (counted ts) \<and>
       coarsened_ticks_counter (task_clock_info u2) = 0 \<and> \<not> in_coarsened_tx (task_clock_info u2)"
  proof (intro allI impI)
    fix u2 assume "determ_task_clock_end_coarsened_tx os u1 = Inr u2"
    note e = end_coarsened_clock[OF me1 pub1 this]
    from e(1) k c s have "get_clock_ticks (get (sys u2)) (cur E) =
        get_clock_ticks (get (sys u)) (cur E) + of_nat (counted ts)" by simp
    with e rd show "determ_task_clock_read os u2 = determ_task_clock_read os u1 \<and>
       get_clock_ticks (get (sys u2)) (cur E) =
         get_clock_ticks (get (sys u)) (cur E) + of_nat (counted ts) \<and>
       coarsened_ticks_counter (task_clock_info u2) = 0 \<and> \<not> in_coarsened_tx (task_clock_info u2)" by simp
  qed
  with b rd show ?thesis by blast
qed

end

end
