(* ===== verification/Library_Properties.thy ===== *)
theory Library_Properties
  imports Library_Kernel
begin

text \<open>
  The interfaces of \<open>Library_Kernel\<close> interpreted on the model of the module, and what a process
  that uses the library can rely on.
\<close>

subsection \<open>The module behind the descriptor\<close>

text \<open>
  A world in which every request runs the handler of its name. \<open>poll\<close> may return at any time.
  \<open>rdpmc\<close> shows the low 32 bits of the counter, which is what the library gets
  on x86-64; starting a block sets the counter to \<open>2 ^ 31 - 1\<close> below its overflow.
\<close>

record kworld =
  kmodule :: kstate
  kfile :: determ_clock_info
  counter :: nat

definition kernel_handler :: "env \<Rightarrow> perf_event_ioc \<Rightarrow> u32 \<Rightarrow> kstate \<Rightarrow> kstate result" where
  "kernel_handler E req arg s = (case req of
     IOC_TASK_CLOCK_WAIT \<Rightarrow> task_clock_entry_wait E s
   | IOC_TASK_CLOCK_WOKE_UP \<Rightarrow> Inr (task_clock_entry_woke_up E s)
   | IOC_TASK_CLOCK_ADD_TICKS \<Rightarrow> task_clock_add_ticks E s arg
   | IOC_TASK_CLOCK_HALT \<Rightarrow> task_clock_entry_halt E s
   | IOC_TASK_CLOCK_ACTIVATE \<Rightarrow> task_clock_entry_activate E s
   | IOC_TASK_CLOCK_ACTIVATE_OTHER \<Rightarrow> task_clock_entry_activate_other E s (sint arg)
   | IOC_TASK_CLOCK_SLEEP \<Rightarrow> task_clock_entry_sleep [E] s
   | IOC_TASK_CLOCK_RESET \<Rightarrow> Inr (task_clock_entry_reset E s)
   | IOC_TASK_CLOCK_STOP \<Rightarrow> task_clock_entry_stop E s
   | IOC_TASK_CLOCK_START \<Rightarrow> task_clock_entry_start E s
   | IOC_TASK_CLOCK_STOP_NO_NOTIFY \<Rightarrow> Inr (task_clock_entry_stop_no_notify E s)
   | IOC_TASK_CLOCK_START_NO_NOTIFY \<Rightarrow> Inr (task_clock_entry_start_no_notify E s)
   | IOC_ENABLE \<Rightarrow> task_clock_on_enable E s
   | IOC_DISABLE \<Rightarrow> task_clock_on_disable E s
   | _ \<Rightarrow> Inr s)"

definition kernel_os :: "env \<Rightarrow> kworld lib_os" where
  "kernel_os E =
     \<lparr>lib_no_instruction_counting = False,
      sys_ioctl = (\<lambda>fd req arg w.
        bindE (kernel_handler E req arg (kmodule w)) (\<lambda>t. Inr (w\<lparr>kmodule := t\<rparr>, 0))),
      sys_perf_event_open = (\<lambda>_ _ _ _ _ w. (w, 3)),
      sys_mmap = (\<lambda>_ _ w. (w, 0x10000)),
      sys_close = (\<lambda>_ w. w),
      sys_getpid = (\<lambda>_. 1),
      shared = (\<lambda>w. (kfile w)\<lparr>dci_user_status := (\<lambda>i. ustat (kmodule w) (int i))\<rparr>),
      set_shared = (\<lambda>d w. w\<lparr>kmodule := (kmodule w)\<lparr>ustat :=
        (\<lambda>i. if 0 \<le> i then dci_user_status d (nat i) else ustat (kmodule w) i)\<rparr>, kfile := d\<rparr>),
      sys_mkstemp = (\<lambda>name w. (w, 4, name)),
      sys_open = (\<lambda>_ w. (w, 4)),
      sys_ftruncate = (\<lambda>_ _ w. w),
      sys_mlock = (\<lambda>_ _ w. w),
      sys_task_clock = (\<lambda>_ _ _ w. Inr w),
      sys_task_clock_do = (\<lambda>req _ w.
        if req = TASK_CLOCK_OP_START_COARSENED
        then Inr (w\<lparr>kmodule := task_clock_entry_start_no_notify E (kmodule w), counter := 2 ^ 32 - (2 ^ 31 - 1)\<rparr>)
        else bindE (if req = TASK_CLOCK_OP_STOP then task_clock_entry_stop E (kmodule w)
                    else task_clock_entry_start E (kmodule w)) (\<lambda>t. Inr (w\<lparr>kmodule := t\<rparr>))),
      sys_poll = (\<lambda>_ w. w),
      sys_rdpmc = (\<lambda>_ w. of_nat (counter w mod 2 ^ 32)),
      sys_elapse = (\<lambda>w. w)\<rparr>"

definition execute :: "nat \<Rightarrow> kworld \<Rightarrow> kworld" where
  "execute n w = w\<lparr>counter := counter w + n\<rparr>"

definition until_wrap :: "kworld \<Rightarrow> nat" where
  "until_wrap w = 2 ^ 32 - 1 - counter w mod 2 ^ 32"

lemma low_bits_add:
  assumes "n \<le> 2 ^ 32 - 1 - c mod 2 ^ 32"
  shows "(c + n) mod 2 ^ 32 = c mod 2 ^ 32 + (n :: nat)"
proof -
  have "c mod 2 ^ 32 < (2 :: nat) ^ 32" by simp
  with assms have "c mod 2 ^ 32 + n < 2 ^ 32" by linarith
  then have "(c mod 2 ^ 32 + n) mod 2 ^ 32 = c mod 2 ^ 32 + n" by (rule mod_less)
  then show ?thesis by (simp only: mod_add_left_eq)
qed

lemma until_wrap_execute: "until_wrap w \<le> until_wrap (execute n w) + n"
proof -
  have "(counter w + n) mod 2 ^ 32 = (counter w mod 2 ^ 32 + n) mod 2 ^ 32" by (simp only: mod_add_left_eq)
  also have "\<dots> \<le> counter w mod 2 ^ 32 + n" by (rule mod_less_eq_dividend)
  finally show ?thesis unfolding until_wrap_def execute_def by simp
qed

lemma rdpmc_execute:
  assumes "n \<le> until_wrap w"
  shows "(of_nat (counter (execute n w) mod 2 ^ 32) :: u64) = of_nat (counter w mod 2 ^ 32) + of_nat n"
  using low_bits_add[of n "counter w"] assms by (simp add: until_wrap_def execute_def)

interpretation kernel: coarsened_module "kernel_os E" E kmodule "\<lambda>t w. w\<lparr>kmodule := t\<rparr>" execute until_wrap
  for E
proof unfold_locales
  show "take_bit 48 (sys_rdpmc (kernel_os E) r' (execute n w)) = take_bit 48 (sys_rdpmc (kernel_os E) r w + of_nat n)"
    if "n \<le> until_wrap w" for n w r r'
    using rdpmc_execute[OF that] by (simp add: kernel_os_def)
  show "2 ^ 31 - 2 \<le> until_wrap t"
    if "sys_task_clock_do (kernel_os E) TASK_CLOCK_OP_START_COARSENED a w = Inr t" for a w t
    using that by (auto simp: kernel_os_def until_wrap_def)
  show "until_wrap w \<le> until_wrap (execute n w) + n" for w n by (rule until_wrap_execute)
qed (simp_all add: kernel_os_def kernel_handler_def execute_def tc_macro)

subsection \<open>A process of the library\<close>

definition zero_file :: determ_clock_info where
  "zero_file = \<lparr>leader_perf_counter = True, id_counter = 2, clock_file_name = [],
     current_event_count = 0, dci_user_status = (\<lambda>_. zero_user_status),
     event_debugging = (\<lambda>_. 0), event_tick_debugging = (\<lambda>_. 0)\<rparr>"

definition lib_process :: "nat \<Rightarrow> kstate \<Rightarrow> kworld process" where
  "lib_process i s = \<lparr>clock_info = 0x10000,
     task_clock_info = \<lparr>tci_tid = of_nat i,
       perf_counter = \<lparr>pci_pid = 1, pci_fd = 3, ring_buffer = 0, ring_buffer_current = 0, started = True\<rparr>,
       user_status = i, disabled = False,
       tci_debug_clock_cache = \<lparr>dc_count = 0, clock_arr = (\<lambda>_. 0), dc_thread_id = 0\<rparr>,
       last_clock_value = 0, coarsened_ticks_counter = 0, estimator = tx_estimate_init,
       in_coarsened_tx = False, last_raw_perf = 0, current_raw_perf = 0\<rparr>,
     sys = \<lparr>kmodule = s, kfile = zero_file, counter = 0\<rparr>\<rparr>"

lemma lib_process_sel [simp]:
  "user_status (task_clock_info (lib_process i s)) = i"
  "\<not> disabled (task_clock_info (lib_process i s))"
  "coarsened_ticks_counter (task_clock_info (lib_process i s)) = 0"
  "\<not> in_coarsened_tx (task_clock_info (lib_process i s))"
  "estimator (task_clock_info (lib_process i s)) = tx_estimate_init"
  "kmodule (sys (lib_process i s)) = s"
  "my_status (kernel_os E) (lib_process i s) = ustat s (int i)"
  by (simp_all add: lib_process_def my_status_def kernel_os_def)

subsection \<open>Who is told that it is the lowest\<close>

text \<open>
  C9: what a running thread learns when it asks the library whether it has the lowest
  clock, in any state the module can reach. If its clock counts as enabled and its page does not
  name it, the module is asked: it is told yes only if it is the only active thread or has the
  lowest clock of all active initialised threads, and its clock then counts as enabled again;
  told no, it is marked as waiting by the module and as disabled by the library, so that the
  next answer comes from its page. Otherwise the answer comes from the page alone: it is yes
  exactly if the flag is set, whatever the clocks have become since the module set it (the
  second part of the instance below is a yes that is out of date). A yes takes the flag back; a no from
  the page changes nothing.
\<close>

theorem is_lowest_answer:
  assumes "task_clock_module os E get put" "tc_reach M (get (sys u))" "M \<le> LISTARRAY_MAX_SIZE" "call_ok M E"
    and "cur E = int (user_status (task_clock_info u))"
    and "determ_task_clock_is_lowest os u = Inr (u', r)"
  shows "if \<not> disabled (task_clock_info u) \<and> us_lowest_clock (my_status os u) = 0
    then r = 1 \<and> \<not> disabled (task_clock_info u') \<and> us_lowest_clock (my_status os u') = 0 \<and>
           (current_is_only_active_thread E (get (sys u)) \<or>
            (\<exists>xs. listarray_foreach (active_threads (get (sys u))) = Inr xs \<and>
               least_of (get (sys u)) {i \<in> set xs. candidate (get (sys u)) i} (cur E))) \<or>
         r = 0 \<and> disabled (task_clock_info u') \<and> waiting (clocks (get (sys u')) (cur E))
    else if us_lowest_clock (my_status os u) \<noteq> 0
    then r = 1 \<and> \<not> disabled (task_clock_info u') \<and> us_lowest_clock (my_status os u') = 0 \<and>
         get_clock_ticks (get (sys u')) = get_clock_ticks (get (sys u))
    else r = 0 \<and> u' = u"
proof (cases "disabled (task_clock_info u) \<or> is_named_lowest os u")
  case True
  with task_clock_module.is_lowest_from_page[OF assms(1) True assms(6)] show ?thesis
    by (auto simp: is_named_lowest_def split: if_splits)
next
  case False
  from reach_activeE[OF assms(2,3)] obtain xs where
    xs: "la_rep (active_threads (get (sys u))) xs" "listarray_foreach (active_threads (get (sys u))) = Inr xs" .
  from task_clock_module.is_lowest_asks[OF assms(1) xs(1) call_okD(3,2)[OF assms(4)] assms(5) _ _ assms(6)] False
  show ?thesis using xs(2) by (auto simp: is_named_lowest_def)
qed

lemma stale_answer:
  "\<exists>a. task_clock_on_enable (thread 0) two_threads = Inr a \<and>
     (let s = task_clock_entry_stop_no_notify (thread 0\<lparr>rdmsr := 10\<rparr>) a
      in us_lowest_clock (ustat s 0) = 1 \<and> get_clock_ticks s 0 = 10 \<and> get_clock_ticks s 1 = 1 \<and>
         active_threads s = active_threads two_threads \<and> candidate s 1)"
  by (simp add: two_threads_def running_entry_def active_list_01 concrete_defs
        state_defs list_defs decision_defs period_defs task_clock_on_enable_def task_clock_entry_stop_no_notify_def
        counting_defs pmc_delta_10)

theorem is_lowest_answer_witness:
  "(\<exists>u'. determ_task_clock_is_lowest (kernel_os (thread 1)) (lib_process 1 two_threads) = Inr (u', 0) \<and>
      waiting (clocks (kmodule (sys u')) 1)) \<and>
   (\<exists>s u'. tc_reach 2 s \<and> determ_task_clock_is_lowest (kernel_os (thread 0)) (lib_process 0 s) = Inr (u', 1) \<and>
      listarray_foreach (active_threads s) = Inr [0, 1] \<and> candidate s 1 \<and>
      get_clock_ticks (kmodule (sys u')) 1 < get_clock_ticks (kmodule (sys u')) 0)"
proof
  let ?os = "kernel_os (thread 1)" and ?u = "lib_process 1 two_threads"
  have f: "us_lowest_clock (my_status ?os ?u) = 0" by (simp add: two_threads_def zero_user_status_def)
  obtain t where t: "task_clock_entry_wait (thread 1) two_threads = Inr t" "us_lowest_clock (ustat t 1) = 0"
    by (simp add: task_clock_entry_wait_def two_threads_def running_entry_def active_list_01 concrete_defs
        state_defs list_defs decision_defs)
  then obtain u' where u': "determ_task_clock_is_lowest ?os ?u = Inr (u', 0)"
    using f by (simp add: determ_task_clock_is_lowest_def kernel.lib_wait is_named_lowest_def kernel.my_status_get)
  have "cur (thread 1) = 1" by (simp add: thread_def)
  with is_lowest_answer[OF kernel.task_clock_module_axioms _ _ thread_ok[of 1] _ u'] two_threads_reachable f
  have "waiting (clocks (kmodule (sys u')) 1)" by (simp add: LISTARRAY_MAX_SIZE_def)
  with u' show "\<exists>u'. determ_task_clock_is_lowest ?os ?u = Inr (u', 0) \<and> waiting (clocks (kmodule (sys u')) 1)" by blast
next
  obtain a s where a: "task_clock_on_enable (thread 0) two_threads = Inr a"
    and s: "s = task_clock_entry_stop_no_notify (thread 0\<lparr>rdmsr := 10\<rparr>) a" "us_lowest_clock (ustat s 0) = 1"
      "get_clock_ticks s 0 = 10" "get_clock_ticks s 1 = 1" "active_threads s = active_threads two_threads" "candidate s 1"
    using stale_answer by (auto simp: Let_def)
  have ok: "call_ok 2 (thread 0)" "call_ok 2 (thread 0\<lparr>rdmsr := 10\<rparr>)" "cur (thread 0) = 0"
    by (simp_all add: call_ok_def thread_def valid_id_def)
  have reach: "tc_reach 2 s"
    unfolding s(1) by (rule tc_reach.step[OF tc_reach.step[OF two_threads_reachable tc_step.on_enable[OF ok(1) a]]
          tc_step.stop_no_notify[OF ok(2)]])
  let ?os = "kernel_os (thread 0)" and ?u = "lib_process 0 s"
  have f: "us_lowest_clock (my_status ?os ?u) = 1" using s(2) by simp
  then obtain u' r where u': "determ_task_clock_is_lowest ?os ?u = Inr (u', r)"
    by (simp add: determ_task_clock_is_lowest_def is_named_lowest_def kernel.lib_woke_up)
  from is_lowest_answer[OF kernel.task_clock_module_axioms _ _ ok(1) _ u'] reach f ok(3)
  have "r = 1 \<and> get_clock_ticks (kmodule (sys u')) = get_clock_ticks s" by (simp add: LISTARRAY_MAX_SIZE_def)
  moreover have "listarray_foreach (active_threads s) = Inr [0, 1]"
    unfolding s(5) by (simp add: two_threads_def active_list_01 list_defs Let_def tc_macro)
  ultimately show "\<exists>s u'. tc_reach 2 s \<and> determ_task_clock_is_lowest (kernel_os (thread 0)) (lib_process 0 s) = Inr (u', 1) \<and>
      listarray_foreach (active_threads s) = Inr [0, 1] \<and> candidate s 1 \<and>
      get_clock_ticks (kmodule (sys u')) 1 < get_clock_ticks (kmodule (sys u')) 0"
    using reach u' s by auto
qed

subsection \<open>Coarsened transactions\<close>

text \<open>
  C16: a process whose page shows the clock that the module keeps for it ends its
  coarsened block by adding the counted ticks, cut to a signed 32-bit number, to that clock. The
  reading of the clock then agrees with the module's clock again; it is the reading from before
  exactly as long as the block counted less than \<open>2 ^ 31\<close> ticks (or, as a negative number, at
  least \<open>2 ^ 64 - 2 ^ 31\<close>); otherwise ticks are lost or the clock goes back.
\<close>

theorem end_coarsened_tx_settles:
  assumes "task_clock_module os E get put" "cur E = int (user_status (task_clock_info u))"
    and "us_ticks (my_status os u) = get_clock_ticks (get (sys u)) (cur E)"
    and "determ_task_clock_end_coarsened_tx os u = Inr u'"
  shows "determ_task_clock_read os u' = get_clock_ticks (get (sys u')) (cur E) \<and>
    get_clock_ticks (get (sys u')) (cur E) = get_clock_ticks (get (sys u)) (cur E) +
      scast (ucast (coarsened_ticks_counter (task_clock_info u)) :: u32) \<and>
    (determ_task_clock_read os u' = determ_task_clock_read os u \<longleftrightarrow>
       unat (coarsened_ticks_counter (task_clock_info u)) < 2 ^ 31 \<or>
       unat (coarsened_ticks_counter (task_clock_info u)) \<ge> 2 ^ 64 - 2 ^ 31) \<and>
    coarsened_ticks_counter (task_clock_info u') = 0 \<and> \<not> in_coarsened_tx (task_clock_info u')"
proof -
  note e = task_clock_module.end_coarsened_clock[OF assms]
  let ?c = "coarsened_ticks_counter (task_clock_info u)"
  have "determ_task_clock_read os u' = determ_task_clock_read os u \<longleftrightarrow> scast (ucast ?c :: u32) = ?c"
    unfolding e(2) e(1) using assms(3) by (simp add: determ_task_clock_read_def)
  also have "\<dots> \<longleftrightarrow> unat ?c < 2 ^ 31 \<or> unat ?c \<ge> 2 ^ 64 - 2 ^ 31" by (rule int32_roundtrip)
  finally show ?thesis using e by simp
qed

lemma two_threads_clock_0:
  "cur (thread i) = i" "get_clock_ticks two_threads 0 = 0" "us_ticks (ustat two_threads 0) = 0"
  by (simp_all add: thread_def two_threads_def running_entry_def zero_entry_def get_clock_ticks_def
      zero_user_status_def)

lemma two_threads_add_ticks: "\<exists>t. task_clock_add_ticks (thread 0) two_threads n = Inr t"
  by (simp add: two_threads_def running_entry_def active_list_01 concrete_defs state_defs list_defs
      decision_defs task_clock_add_ticks_def)

theorem end_coarsened_tx_settles_witness:
  "\<exists>u u'. determ_task_clock_end_coarsened_tx (kernel_os (thread 0)) u = Inr u' \<and>
     determ_task_clock_read (kernel_os (thread 0)) u = 2 ^ 32 + 7 \<and>
     determ_task_clock_read (kernel_os (thread 0)) u' = 7"
proof -
  let ?os = "kernel_os (thread 0)"
  let ?u = "upd_tci (\<lambda>t. t\<lparr>coarsened_ticks_counter := 2 ^ 32 + 7\<rparr>) (lib_process 0 two_threads)"
  obtain t where t: "task_clock_add_ticks (thread 0) two_threads (ucast (2 ^ 32 + 7 :: u64)) = Inr t"
    using two_threads_add_ticks by blast
  then obtain u' where u': "determ_task_clock_end_coarsened_tx ?os ?u = Inr u'"
    by (simp add: determ_task_clock_end_coarsened_tx_def kernel.lib_add_ticks)
  have "determ_task_clock_read ?os u' = 7"
    using end_coarsened_tx_settles[OF kernel.task_clock_module_axioms _ _ u']
    by (simp add: two_threads_clock_0)
  moreover have "determ_task_clock_read ?os ?u = 2 ^ 32 + 7"
    by (simp add: determ_task_clock_read_def two_threads_clock_0)
  ultimately show ?thesis using u' by blast
qed

text \<open>
  C11: a block of coarsened transactions, each of at most \<open>2 ^ 22\<close> instructions and fewer
  than \<open>2 ^ 31 - 1\<close> in all, that is begun outside a block, with nothing counted yet and the module's clock in the
  page, always runs to its end in the library; the reading of the clock is then
  the module's clock plus exactly the instructions executed inside the transactions, none of
  those between them; and ending the block moves the module's clock by exactly that number,
  which leaves the reading where it was. Of \<open>rdpmc\<close> only the low 32 bits are needed.
\<close>

theorem coarsened_block_settles:
  assumes "coarsened_module os E get put work room" "cur E = int (user_status (task_clock_info u))"
    and "us_ticks (my_status os u) = get_clock_ticks (get (sys u)) (cur E)"
    and "coarsened_ticks_counter (task_clock_info u) = 0" "\<not> in_coarsened_tx (task_clock_info u)"
    and "\<forall>(g, n)\<in>set ts. n \<le> B" "B \<le> 2 ^ 22" "executed ts < 2 ^ 31 - 1"
    and "tx_ok B k (estimator (task_clock_info u) (tx_get_entry ident))"
  shows "\<exists>u1. coarsened_block os work ident ts u = Inr u1 \<and>
    determ_task_clock_read os u1 = get_clock_ticks (get (sys u)) (cur E) + of_nat (counted ts) \<and>
    (\<forall>u2. determ_task_clock_end_coarsened_tx os u1 = Inr u2 \<longrightarrow>
       determ_task_clock_read os u2 = determ_task_clock_read os u1 \<and>
       get_clock_ticks (get (sys u2)) (cur E) =
         get_clock_ticks (get (sys u)) (cur E) + of_nat (counted ts) \<and>
       coarsened_ticks_counter (task_clock_info u2) = 0 \<and> \<not> in_coarsened_tx (task_clock_info u2))"
  by (rule coarsened_module.block_then_end[OF assms])

theorem coarsened_block_settles_witness:
  "\<exists>u1. coarsened_block (kernel_os (thread 0)) execute 0x20300 [(50, 1000), (20, 4000000), (3, 7)]
       (lib_process 0 two_threads) = Inr u1 \<and>
     determ_task_clock_read (kernel_os (thread 0)) u1 = 4001007"
proof -
  let ?ts = "[(50, 1000), (20, 4000000), (3, 7)]"
  have "tx_ok (2 ^ 22) 0 (estimator (task_clock_info (lib_process 0 two_threads)) (tx_get_entry 0x20300))"
    by (simp add: tx_ok_def tx_estimate_init_def)
  then have "\<exists>u1. coarsened_block (kernel_os (thread 0)) execute 0x20300 ?ts (lib_process 0 two_threads) = Inr u1 \<and>
     determ_task_clock_read (kernel_os (thread 0)) u1 = get_clock_ticks two_threads 0 + of_nat (counted ?ts)"
    using coarsened_block_settles[OF kernel.coarsened_module_axioms[of "thread 0"], where u = "lib_process 0 two_threads"
      and ts = ?ts and B = "2 ^ 22" and k = 0 and ident = "0x20300"]
    by (simp add: two_threads_clock_0) blast
  then show ?thesis by (simp add: two_threads_clock_0)
qed

subsection \<open>Instances of the properties that hold over any operating system\<close>

theorem is_lowest_wait_protocol_witness:
  "\<exists>u'. determ_task_clock_is_lowest_wait (kernel_os (thread 0)) (lib_process 0 two_threads) = Inr (u', False) \<and>
     us_lowest_clock (my_status (kernel_os (thread 0)) u') = 0"
proof -
  let ?os = "kernel_os (thread 0)" and ?u = "lib_process 0 two_threads"
  obtain t where t: "task_clock_entry_wait (thread 0) two_threads = Inr t" "us_lowest_clock (ustat t 0) = 1"
    by (simp add: task_clock_entry_wait_def two_threads_def running_entry_def active_list_01 concrete_defs
        state_defs list_defs decision_defs)
  define v where "v = upd_tci (\<lambda>t. t\<lparr>disabled := True\<rparr>) (?u\<lparr>sys := (sys ?u)\<lparr>kmodule := t\<rparr>\<rparr>)"
  have "is_named_lowest ?os v" using t(2) by (simp add: v_def is_named_lowest_def kernel.my_status_get)
  then have "spin_lowest ?os n v = v" "sleep_until_lowest ?os v = Inr v" for n
    by (simp_all add: spin_lowest.simps sleep_until_lowest_def)
  with t(1) obtain r where r: "determ_task_clock_is_lowest_wait ?os ?u = Inr r"
    by (simp add: determ_task_clock_is_lowest_wait_def kernel.lib_wait Let_def v_def[symmetric]
        kernel.lib_report kernel.lib_woke_up)
  from is_lowest_wait_protocol[OF kernel.shared_memory_axioms, of "thread 0" ?u] r show ?thesis
    by (cases r) auto
qed

theorem failed_mapping_goes_unnoticed_witness:
  "determ_clock_init ((kernel_os (thread 0))\<lparr>sys_mmap := (\<lambda>_ _ w. (w, MAP_FAILED))\<rparr>) (lib_process 0 zero_state) =
   Inl OutOfBounds"
  using failed_mapping_goes_unnoticed[of "(kernel_os (thread 0))\<lparr>sys_mmap := (\<lambda>_ _ w. (w, MAP_FAILED))\<rparr>"
      "lib_process 0 zero_state"]
  by (simp add: kernel_os_def)

end
