(* ===== verification/Library_Turns.thy ===== *)
theory Library_Turns
  imports Library_Properties Sync_Progress
begin

text \<open>
  Both halves together, among the other threads: a process that waits for the lowest clock with
  the library returns with the turn. The module holds the turn (\<open>Clock_Turns\<close>), the other
  threads cannot take it (\<open>Clock_Calls\<close>), and the library returns only when it has been told.
\<close>

subsection \<open>What the others may do\<close>

text \<open>
  \<open>beside M i s t\<close>: another active thread that is set up makes a call for itself that does not lower
  its own 64-bit clock.
\<close>

definition beside :: "int \<Rightarrow> tid \<Rightarrow> kstate \<Rightarrow> kstate \<Rightarrow> bool" where
  "beside M i s t \<longleftrightarrow> (\<exists>j. j \<noteq> i \<and> on_list s j \<and> initialized (clocks s j) \<and> runs M j s t \<and>
     get_clock_ticks s j \<le> get_clock_ticks t j)"

text \<open>
  What is stable under that: thread \<open>i\<close> is active, and if it has been told since it had been woken
  \<open>n\<close> times then it has the turn.
\<close>

definition attentive :: "int \<Rightarrow> tid \<Rightarrow> nat \<Rightarrow> kstate \<Rightarrow> bool" where
  "attentive M i n s \<longleftrightarrow> tc_reach M s \<and> on_list s i \<and> initialized (clocks s i) \<and> n \<le> wakeups s i \<and>
     (alerted n s i \<longrightarrow> has_turn s i)"

lemma beside_attentive:
  assumes st: "beside M i s t" and M: "M \<le> LISTARRAY_MAX_SIZE" and at: "attentive M i n s"
  shows "attentive M i n t"
proof -
  from st obtain j where j: "j \<noteq> i" "on_list s j" "initialized (clocks s j)" "runs M j s t"
    "get_clock_ticks s j \<le> get_clock_ticks t j" by (auto simp: beside_def)
  have reach: "tc_reach M s" using at by (simp add: attentive_def)
  note inv = tc_reach_inv[OF reach M]
  have "tc_reach M t" by (rule tc_reach.step[OF reach runs_tc_step[OF j(4)]])
  moreover have "on_list t i" "initialized (clocks t i)"
    using runs_frame(1)[OF j(4) inv M j(2), of i] j(1) at by (auto simp: attentive_def)
  moreover have "has_turn s i \<Longrightarrow> has_turn t i" "told s t i \<Longrightarrow> has_turn t i"
    using runs_effect[OF j(4) inv M j(2,5) disjI1[OF j(3)]] j(1)[symmetric] by blast+
  moreover have "wakeups s i \<le> wakeups t i" by (rule runs_keep_alerts(1)[OF j(4) inv M])
  moreover have "alerted n s i \<or> told s t i" if "alerted n t i"
    using that by (auto simp: alerted_def told_def)
  ultimately show ?thesis using at unfolding attentive_def by (meson le_trans)
qed

lemma besides_attentive:
  assumes "(beside M i)\<^sup>*\<^sup>* s t" "M \<le> LISTARRAY_MAX_SIZE" "attentive M i n s"
  shows "attentive M i n t"
  using assms(1) by (induction rule: rtranclp_induct) (use assms(2,3) beside_attentive in blast)+

text \<open>A call that decides makes the caller attentive from then on.\<close>

lemma asks_attentive:
  assumes ask: "asks M i s t" and M: "M \<le> LISTARRAY_MAX_SIZE"
    and s: "tc_reach M s" "on_list s i" "initialized (clocks s i)"
  shows "attentive M i (wakeups t i) t"
proof -
  note inv = tc_reach_inv[OF s(1) M]
  from inv obtain xs where rep: "la_rep (active_threads s) xs" by (rule tc_invE)
  from asks_looks[OF ask rep] obtain E where "cur E = i" "decides E s t" using looks_decides by blast
  then have kp: "keeps i s t" using decides_keeps by blast
  have "tc_reach M t" by (rule tc_reach.step[OF s(1) runs_tc_step[OF asks_runs[OF ask]]])
  moreover have "on_list t i" using s(2) keeps_list[OF kp] by (simp add: on_list_def)
  moreover have "initialized (clocks t i)" using s(3) kp by (simp add: keeps_def)
  ultimately show ?thesis
    using asks_turn[OF ask inv s(2,3)] by (simp add: attentive_def alerted_def)
qed

lemma woke_up_turn: "has_turn (task_clock_entry_woke_up E s) i = has_turn s i"
proof -
  let ?t = "task_clock_entry_woke_up E s"
  have "get_clock_ticks ?t = get_clock_ticks s" by (auto simp: task_clock_entry_woke_up_def get_clock_ticks_def)
  moreover have "candidate ?t = candidate s" by (auto simp: task_clock_entry_woke_up_def candidate_def fun_eq_iff)
  moreover have "active_threads ?t = active_threads s" by (simp add: task_clock_entry_woke_up_def)
  ultimately show ?thesis using least_of_cong[of ?t s] by (simp add: has_turn_def)
qed

lemma has_turn_ustat: "has_turn (upd_ustat j f s) i = has_turn s i"
proof -
  have "get_clock_ticks (upd_ustat j f s) = get_clock_ticks s" "candidate (upd_ustat j f s) = candidate s"
    by (auto simp: get_clock_ticks_def candidate_def fun_eq_iff)
  then show ?thesis using least_of_cong[of "upd_ustat j f s" s] by (simp add: has_turn_def)
qed

subsection \<open>Where the wait polls\<close>

text \<open>The process as it enters \<open>poll\<close>, if the wait comes to that.\<close>

definition sleep_polls :: "('s, 'b) lib_os_scheme \<Rightarrow> 's process \<Rightarrow> 's process option" where
  "sleep_polls os u =
     (if is_named_lowest os u then None
      else case lib_ioctl os IOC_TASK_CLOCK_SLEEP 0 u of
             Inl e \<Rightarrow> None
           | Inr x \<Rightarrow> if is_named_lowest os x then None else Some x)"

definition wait_polls :: "('s, 'b) lib_os_scheme \<Rightarrow> 's process \<Rightarrow> 's process option" where
  "wait_polls os u =
     (case lib_ioctl os IOC_TASK_CLOCK_WAIT 0 u of
        Inl e \<Rightarrow> None
      | Inr v \<Rightarrow> sleep_polls os (spin_lowest os MAX_SPIN_INT (upd_tci (\<lambda>t. t\<lparr>disabled := True\<rparr>) v)))"

text \<open>The poll of the process \<open>x\<close> returns although the module has not woken thread \<open>i\<close> meanwhile.\<close>

definition poll_unwoken :: "('s, 'b) lib_os_scheme \<Rightarrow> ('s \<Rightarrow> kstate) \<Rightarrow> tid \<Rightarrow> 's process \<Rightarrow> bool" where
  "poll_unwoken os get i x \<longleftrightarrow>
     wakeups (get (sys_poll os (pci_fd (perf_counter (task_clock_info x))) (sys x))) i = wakeups (get (sys x)) i"

subsection \<open>The interface\<close>

text \<open>
  The requests of a process that stops its clock and waits, and what happens meanwhile: while the
  process spins or sleeps in \<open>poll\<close>, the others make their calls. \<open>Es\<close> are the environments of the
  rounds of the sleep loop.
\<close>

locale module_among_others = task_clock_module os E get put
  for os :: "('s, 'b) lib_os_scheme" and E :: env and get :: "'s \<Rightarrow> kstate" and put :: "kstate \<Rightarrow> 's \<Rightarrow> 's" +
  fixes M :: int and Es :: "env list"
  assumes req_sleep: "sys_ioctl os fd IOC_TASK_CLOCK_SLEEP arg s =
      bindE (task_clock_entry_sleep Es (get s)) (\<lambda>t. Inr (put t s, 0))"
    and req_stop: "sys_task_clock_do os TASK_CLOCK_OP_STOP arg64 s =
      bindE (task_clock_entry_stop E (get s)) (\<lambda>t. Inr (put t s))"
    and same_thread: "E' \<in> set Es \<Longrightarrow> cur E' = cur E \<and> (call_ok M E \<longrightarrow> call_ok M E')"
    and others_elapse: "(beside M (cur E))\<^sup>*\<^sup>* (get s) (get (sys_elapse os s))"
    and others_poll: "(beside M (cur E))\<^sup>*\<^sup>* (get s) (get (sys_poll os fd s))"
begin

lemma lib_sleep:
  "lib_ioctl os IOC_TASK_CLOCK_SLEEP 0 u =
   bindE (task_clock_entry_sleep Es (get (sys u))) (\<lambda>t. Inr (u\<lparr>sys := put t (sys u)\<rparr>))"
  by (cases "task_clock_entry_sleep Es (get (sys u))")
    (simp_all add: lib_ioctl_def ioctl_or_exit_def req_sleep)

lemma spin_attentive:
  assumes "M \<le> LISTARRAY_MAX_SIZE" "attentive M (cur E) n (get (sys u))"
  shows "attentive M (cur E) n (get (sys (spin_lowest os k u)))"
  using assms(2)
proof (induction k arbitrary: u)
  case 0
  then show ?case
    using besides_attentive[OF others_elapse assms(1)] by (simp add: spin_lowest.simps[of os 0])
next
  case (Suc k)
  have "attentive M (cur E) n (get (sys_elapse os (sys u)))"
    by (rule besides_attentive[OF others_elapse assms(1) Suc.prems])
  with Suc show ?case by (simp add: spin_lowest.simps[of os "Suc k"])
qed

lemma named_turn:
  assumes "attentive M (cur E) n (get (sys u))" "is_named_lowest os u"
    "cur E = int (user_status (task_clock_info u))"
  shows "has_turn (get (sys u)) (cur E)"
  using assms by (simp add: attentive_def alerted_def is_named_lowest_def my_status_get)

lemma sleep_turn:
  assumes M: "M \<le> LISTARRAY_MAX_SIZE" and ok: "call_ok M E" and at: "attentive M (cur E) n (get (sys u))"
    and me: "cur E = int (user_status (task_clock_info u))"
    and sl: "sleep_until_lowest os u = Inr v"
  shows "(has_turn (get (sys v)) (cur E) \<or> (\<exists>x. sleep_polls os u = Some x \<and> poll_unwoken os get (cur E) x)) \<and>
    task_clock_info v = task_clock_info u"
proof (cases "is_named_lowest os u")
  case True
  with sl named_turn[OF at _ me] show ?thesis by (simp add: sleep_until_lowest_def)
next
  case False
  with sl obtain t where t: "task_clock_entry_sleep Es (get (sys u)) = Inr t"
    by (cases "task_clock_entry_sleep Es (get (sys u))") (auto simp: sleep_until_lowest_def lib_sleep)
  define x where "x = u\<lparr>sys := put t (sys u)\<rparr>"
  have x: "lib_ioctl os IOC_TASK_CLOCK_SLEEP 0 u = Inr x" "task_clock_info x = task_clock_info u"
    "get (sys x) = t" by (simp_all add: x_def lib_sleep t get_put)
  have "asks M (cur E) (get (sys u)) t" using same_thread ok by (intro asks.sleep[OF _ t]) blast
  then have xat: "attentive M (cur E) (wakeups t (cur E)) t"
    using asks_attentive[OF _ M] at by (auto simp: attentive_def)
  show ?thesis
  proof (cases "is_named_lowest os x")
    case True
    with sl False x have "v = x" by (simp add: sleep_until_lowest_def)
    with named_turn[of _ x] True xat me x show ?thesis by simp
  next
    case named: False
    let ?p = "sys_poll os (pci_fd (perf_counter (task_clock_info x))) (sys x)"
    have v: "v = x\<lparr>sys := ?p\<rparr>" using sl False named x by (simp add: sleep_until_lowest_def)
    have "attentive M (cur E) (wakeups t (cur E)) (get ?p)"
      using besides_attentive[OF others_poll M, of "wakeups t (cur E)" "sys x"] xat x(3) by simp
    moreover have "sleep_polls os u = Some x" using False named x by (simp add: sleep_polls_def)
    ultimately show ?thesis using v x(2,3) by (auto simp: attentive_def alerted_def poll_unwoken_def)
  qed
qed

lemma wait_turn_taken:
  assumes M: "M \<le> LISTARRAY_MAX_SIZE" and ok: "call_ok M E"
    and me: "cur E = int (user_status (task_clock_info u))"
    and s: "tc_reach M (get (sys u))" "on_list (get (sys u)) (cur E)" "initialized (clocks (get (sys u)) (cur E))"
    and w: "determ_task_clock_is_lowest_wait os u = Inr (u', polled)"
  shows "has_turn (get (sys u')) (cur E) \<or> (\<exists>x. wait_polls os u = Some x \<and> poll_unwoken os get (cur E) x)"
proof -
  from w obtain t where t: "task_clock_entry_wait E (get (sys u)) = Inr t"
    by (cases "task_clock_entry_wait E (get (sys u))")
      (auto simp: determ_task_clock_is_lowest_wait_def lib_wait Let_def)
  define x where "x = upd_tci (\<lambda>t. t\<lparr>disabled := True\<rparr>) (u\<lparr>sys := put t (sys u)\<rparr>)"
  define y where "y = spin_lowest os MAX_SPIN_INT x"
  have xt: "get (sys x) = t" "user_status (task_clock_info y) = user_status (task_clock_info u)"
    by (simp_all add: x_def y_def get_put)
  from w t obtain v where v: "sleep_until_lowest os y = Inr v"
    by (cases "sleep_until_lowest os y")
      (auto simp: determ_task_clock_is_lowest_wait_def lib_wait Let_def y_def x_def)
  have "asks M (cur E) (get (sys u)) t" by (rule asks.wait[OF ok refl t])
  then have "attentive M (cur E) (wakeups t (cur E)) (get (sys x))"
    using asks_attentive[OF _ M s] xt(1) by simp
  then have "attentive M (cur E) (wakeups t (cur E)) (get (sys y))"
    unfolding y_def by (rule spin_attentive[OF M])
  from sleep_turn[OF M ok this _ v] me xt(2) t
  have "has_turn (get (sys v)) (cur E) \<or> (\<exists>x. wait_polls os u = Some x \<and> poll_unwoken os get (cur E) x)"
    by (simp add: wait_polls_def lib_wait y_def x_def Let_def)
  moreover have "get (sys u') = upd_ustat (int (user_status (task_clock_info u'))) (\<lambda>us. us\<lparr>us_lowest_clock := 0\<rparr>)
      (task_clock_entry_woke_up E (task_clock_entry_woke_up E (get (sys v))))"
    using w t v
    by (auto simp: determ_task_clock_is_lowest_wait_def lib_wait lib_report lib_woke_up Let_def y_def x_def
        get_upd_status get_put)
  ultimately show ?thesis by (auto simp: has_turn_ustat woke_up_turn)
qed

end

subsection \<open>The module, with others at work\<close>

text \<open>
  \<open>f\<close> is what the other threads do in a round of the spinning and \<open>g\<close> what they do while the
  process polls, as far as it consists of calls that they may make. \<open>poll\<close> returns whether they
  have woken the process or not.
\<close>

definition as_others :: "int \<Rightarrow> tid \<Rightarrow> (kstate \<Rightarrow> kstate) \<Rightarrow> kworld \<Rightarrow> kworld" where
  "as_others M i f w = (if (beside M i)\<^sup>*\<^sup>* (kmodule w) (f (kmodule w)) then w\<lparr>kmodule := f (kmodule w)\<rparr> else w)"

definition shared_os :: "env \<Rightarrow> (kstate \<Rightarrow> kstate) \<Rightarrow> (kstate \<Rightarrow> kstate) \<Rightarrow> kworld lib_os" where
  "shared_os E f g = (kernel_os E)\<lparr>sys_elapse := as_others (task_clock_max_threads E) (cur E) f,
     sys_poll := (\<lambda>_. as_others (task_clock_max_threads E) (cur E) g)\<rparr>"

lemma shared_os_sel:
  "sys_ioctl (shared_os E f g) = sys_ioctl (kernel_os E)" "shared (shared_os E f g) = shared (kernel_os E)"
  "set_shared (shared_os E f g) = set_shared (kernel_os E)"
  "sys_task_clock_do (shared_os E f g) = sys_task_clock_do (kernel_os E)"
  "sys_elapse (shared_os E f g) = as_others (task_clock_max_threads E) (cur E) f"
  "sys_poll (shared_os E f g) fd = as_others (task_clock_max_threads E) (cur E) g"
  by (simp_all add: shared_os_def)

lemma as_others_besides: "(beside M i)\<^sup>*\<^sup>* (kmodule w) (kmodule (as_others M i f w))"
  by (simp add: as_others_def)

lemma as_others_idle: "as_others M i (\<lambda>s. s) w = w"
  by (simp add: as_others_def)

interpretation among: module_among_others "shared_os E f g" E kmodule "\<lambda>t w. w\<lparr>kmodule := t\<rparr>"
  "task_clock_max_threads E" "[E]"
  for E f g
proof unfold_locales
  show "(beside (task_clock_max_threads E) (cur E))\<^sup>*\<^sup>* (kmodule w) (kmodule (sys_poll (shared_os E f g) fd w))" for fd w
    by (simp add: shared_os_sel as_others_besides)
qed (simp_all add: shared_os_sel as_others_besides kernel_os_def kernel_handler_def tc_macro)

subsection \<open>A wait ends with the turn\<close>


text \<open>
  Thread 1 is ahead of thread 0, waits, spins in vain and polls. In the first run thread 0
  overtakes it meanwhile and wakes it; in the second one nothing happens and \<open>poll\<close> returns.
\<close>

definition others_work :: "kstate \<Rightarrow> kstate" where
  "others_work s = (case task_clock_add_ticks (thread 0) s 10 of Inl _ \<Rightarrow> s | Inr t \<Rightarrow> t)"

lemma others_work_run:
  "\<exists>a c d. task_clock_entry_wait (thread 1) two_threads = Inr a \<and> us_lowest_clock (ustat a 1) = 0 \<and>
     task_clock_entry_sleep [thread 1] a = Inr c \<and> us_lowest_clock (ustat c 1) = 0 \<and>
     task_clock_add_ticks (thread 0) c 10 = Inr d \<and> wakeups c 1 < wakeups d 1 \<and>
     active_threads c = active_threads two_threads \<and> candidate c 0 \<and>
     get_clock_ticks c 0 \<le> get_clock_ticks d 0 \<and> get_clock_ticks c 0 < get_clock_ticks c 1"
  by (simp add: two_threads_def running_entry_def active_list_01 concrete_defs state_defs list_defs
      decision_defs task_clock_entry_wait_def task_clock_add_ticks_def task_clock_entry_sleep_def sleep_round_def
      active_thread_count_def wakeups_def lowest_clock_mapped_def sizeof_user_status_def PAGE_SIZE_def)

lemma spin_in_vain:
  assumes "\<not> is_named_lowest (shared_os E (\<lambda>s. s) g) v"
  shows "spin_lowest (shared_os E (\<lambda>s. s) g) n v = v"
proof (induction n)
  case 0
  from assms show ?case
    by (simp add: spin_lowest.simps[of _ 0] shared_os_sel as_others_idle)
next
  case (Suc n)
  with assms show ?case by (simp add: spin_lowest.simps[of _ "Suc n"] shared_os_sel as_others_idle)
qed

text \<open>The wait of thread 1 up to its poll.\<close>

lemma waits_up_to_poll:
  fixes g
  assumes a: "task_clock_entry_wait (thread 1) two_threads = Inr a" "us_lowest_clock (ustat a 1) = 0"
    and c: "task_clock_entry_sleep [thread 1] a = Inr c" "us_lowest_clock (ustat c 1) = 0"
  defines "os \<equiv> shared_os (thread 1) (\<lambda>s. s) g" and "u \<equiv> lib_process 1 two_threads"
  shows "\<exists>x u'. wait_polls os u = Some x \<and> sys x = (sys u)\<lparr>kmodule := c\<rparr> \<and>
    determ_task_clock_is_lowest_wait os u = Inr (u', False) \<and>
    has_turn (kmodule (sys u')) 1 = has_turn (kmodule (sys_poll os fd (sys x))) 1"
proof -
  define v where "v = upd_tci (\<lambda>t. t\<lparr>disabled := True\<rparr>) (u\<lparr>sys := (sys u)\<lparr>kmodule := a\<rparr>\<rparr>)"
  define x where "x = v\<lparr>sys := (sys u)\<lparr>kmodule := c\<rparr>\<rparr>"
  have named: "\<not> is_named_lowest os v" "\<not> is_named_lowest os x"
    using a(2) c(2) by (simp_all add: v_def x_def u_def os_def is_named_lowest_def among.status_get)
  have sl: "lib_ioctl os IOC_TASK_CLOCK_SLEEP 0 v = Inr x"
    using c(1) by (simp add: os_def among.lib_sleep v_def x_def)
  have su: "kmodule (sys u) = two_threads" "\<not> disabled (task_clock_info u)" by (simp_all add: u_def)
  have sp: "spin_lowest os n v = v" for n using named(1) unfolding os_def by (rule spin_in_vain)
  have "sleep_polls os v = Some x" using named sl by (simp add: sleep_polls_def)
  then have "wait_polls os u = Some x"
    using a(1) sp by (simp add: wait_polls_def os_def among.lib_wait v_def[symmetric] su)
  moreover have "sys x = (sys u)\<lparr>kmodule := c\<rparr>" by (simp add: x_def)
  moreover define y where "y = x\<lparr>sys := sys_poll os (pci_fd (perf_counter (task_clock_info x))) (sys x)\<rparr>"
  moreover have "sleep_until_lowest os v = Inr y" using named sl by (simp add: sleep_until_lowest_def y_def)
  ultimately have w: "wait_polls os u = Some x" "sys x = (sys u)\<lparr>kmodule := c\<rparr>" "sleep_until_lowest os v = Inr y"
    "kmodule (sys y) = kmodule (sys_poll os fd (sys x))"
    by (simp_all add: y_def os_def shared_os_sel)
  obtain u' where u': "determ_task_clock_is_lowest_wait os u = Inr (u', False)"
    "kmodule (sys u') = upd_ustat (int (user_status (task_clock_info u'))) (\<lambda>us. us\<lparr>us_lowest_clock := 0\<rparr>)
       (task_clock_entry_woke_up (thread 1) (task_clock_entry_woke_up (thread 1) (kmodule (sys y))))"
    using a(1) sp w(3)
    by (simp add: determ_task_clock_is_lowest_wait_def os_def among.lib_wait Let_def v_def[symmetric] su
        among.lib_report among.lib_woke_up among.get_upd_status)
  then have "has_turn (kmodule (sys u')) 1 = has_turn (kmodule (sys y)) 1"
    by (simp add: has_turn_ustat woke_up_turn)
  with w u'(1) show ?thesis by auto
qed


end
