(* ===== verification/Simple_Test.thy ===== *)
theory Simple_Test
  imports Library_Turns
begin

text \<open>
  The test program \<open>tests/simple.c\<close>: a parent that takes itself out of the game and forks
  children, which work and wait for their turn. What \<open>fork\<close>, \<open>sleep\<close> and \<open>waitpid\<close> do outside
  the process, and one round of the counting loop, are parameters.
\<close>

subsection \<open>The program\<close>

record 's test_env =
  sys_fork :: "'s \<Rightarrow> 's \<times> int"
  sys_sleep :: "nat \<Rightarrow> 's \<Rightarrow> 's"
  sys_waitpid :: "int \<Rightarrow> 's \<Rightarrow> 's"
  loop_round :: "'s \<Rightarrow> 's"

text \<open>\<open>cnt\<close> is the code's \<open>sum\<close>: it counts the rounds and is dropped at the end. Neither number passes \<open>work_count\<close>.\<close>

function work_loop :: "'s test_env \<Rightarrow> int \<Rightarrow> int \<Rightarrow> int \<Rightarrow> 's process \<Rightarrow> 's process \<times> int" where
  "work_loop te work_count i cnt u =
     (if i < work_count then work_loop te work_count (i + 1) (cnt + 1) (u\<lparr>sys := loop_round te (sys u)\<rparr>)
      else (u, cnt))"
  by pat_completeness auto

termination by (relation "measure (\<lambda>(te, n, i, cnt, u). nat (n - i))") auto

declare work_loop.simps [simp del]

definition do_work :: "'s test_env \<Rightarrow> int \<Rightarrow> 's process \<Rightarrow> 's process" where
  "do_work te work_count u = fst (work_loop te work_count 0 0 u)"

definition test1 :: "('s, 'b) lib_os_scheme \<Rightarrow> 's test_env \<Rightarrow> int \<Rightarrow> 's process \<Rightarrow> 's process result" where
  "test1 os te work u = bindE (determ_task_clock_start os u) (\<lambda>u. Inr (do_work te work u))"

definition wait_turn :: "('s, 'b) lib_os_scheme \<Rightarrow> 's process \<Rightarrow> 's process result" where
  "wait_turn os u =
     bindE (determ_task_clock_stop os u) (\<lambda>u.
     bindE (determ_task_clock_is_lowest_wait os u) (\<lambda>(u, polled).
     determ_task_clock_start os u))"

text \<open>The argument of \<open>test1\<close> is computed in 32 bits and passed as an \<open>int\<close>.\<close>

definition test_amount :: "'s process \<Rightarrow> int" where
  "test_amount u = sint ((determ_task_get_id u + 1) * 10000)"

definition child_main :: "('s, 'b) lib_os_scheme \<Rightarrow> 's test_env \<Rightarrow> 's process \<Rightarrow> 's process result" where
  "child_main os te u =
     bindE (determ_task_clock_init os u) (\<lambda>u.
     let u = u\<lparr>sys := sys_sleep te 2 (sys u)\<rparr>
     in bindE (test1 os te (test_amount u) u) (\<lambda>u.
        bindE (wait_turn os u) (\<lambda>u.
        bindE (test1 os te (test_amount u) u) (\<lambda>u.
        bindE (wait_turn os u) (\<lambda>u.
        determ_task_clock_halt os u)))))"

text \<open>
  Each process runs the loop: \<open>Inl u\<close> is a child that has come to its \<open>exit\<close>, \<open>Inr\<close> the parent
  with the numbers of its children, to which the rest is added.
\<close>

fun fork_loop :: "('s, 'b) lib_os_scheme \<Rightarrow> 's test_env \<Rightarrow> nat \<Rightarrow> int list \<Rightarrow> 's process \<Rightarrow>
    ('s process + 's process \<times> int list) result" where
  "fork_loop os te 0 threads u = Inr (Inr (u, threads))"
| "fork_loop os te (Suc n) threads u =
     (case sys_fork te (sys u) of
        (s, pid) \<Rightarrow>
          if pid = 0 then bindE (child_main os te (u\<lparr>sys := s\<rparr>)) (\<lambda>u. Inr (Inl u))
          else fork_loop os te n (threads @ [pid]) (u\<lparr>sys := s\<rparr>))"

definition simple_main :: "('s, 'b) lib_os_scheme \<Rightarrow> 's test_env \<Rightarrow> 's process \<Rightarrow> 's process result" where
  "simple_main os te u =
     bindE (determ_task_clock_halt os u) (\<lambda>u.
     bindE (fork_loop os te 2 [] u) (\<lambda>r.
     case r of
       Inl child \<Rightarrow> Inr child
     | Inr (u, threads) \<Rightarrow> Inr (u\<lparr>sys := fold (sys_waitpid te) threads (sys u)\<rparr>)))"

subsection \<open>What holds of it\<close>

text \<open>The loop runs \<open>work_count\<close> rounds and counts them.\<close>

lemma work_loop_rounds:
  "work_loop te n i k u =
   (u\<lparr>sys := (loop_round te ^^ nat (n - i)) (sys u)\<rparr>, k + max 0 (n - i))"
proof (induction te n i k u rule: work_loop.induct)
  case (1 te n i k u)
  show ?case
  proof (cases "i < n")
    case True
    then have "nat (n - i) = Suc (nat (n - (i + 1)))" by linarith
    then have "(loop_round te ^^ nat (n - i)) (sys u) =
        (loop_round te ^^ nat (n - (i + 1))) (loop_round te (sys u))"
      by (simp add: funpow_swap1)
    with 1 True show ?thesis by (simp add: work_loop.simps[of te n i])
  next
    case False
    then show ?thesis by (simp add: work_loop.simps[of te n i])
  qed
qed

lemma do_work_rounds: "do_work te n u = u\<lparr>sys := (loop_round te ^^ nat n) (sys u)\<rparr>"
  by (simp add: do_work_def work_loop_rounds)

text \<open>
  A process in \<open>wait_turn\<close> starts its clock when it has the turn, unless its poll returned unwoken.
\<close>

context module_among_others begin

lemma wait_turn_in_turn:
  assumes M: "M \<le> LISTARRAY_MAX_SIZE" and ok: "call_ok M E"
    and me: "cur E = int (user_status (task_clock_info u))"
    and s: "tc_reach M (get (sys u))" "on_list (get (sys u)) (cur E)" "initialized (clocks (get (sys u)) (cur E))"
    and w: "wait_turn os u = Inr u'"
  shows "\<exists>v. determ_task_clock_start os v = Inr u' \<and>
    (has_turn (get (sys v)) (cur E) \<or>
     (\<exists>x y. determ_task_clock_stop os u = Inr y \<and> wait_polls os y = Some x \<and> poll_unwoken os get (cur E) x))"
proof -
  from w obtain x where x: "determ_task_clock_stop os u = Inr x"
    by (cases "determ_task_clock_stop os u") (auto simp: wait_turn_def)
  from w x obtain v p where v: "determ_task_clock_is_lowest_wait os x = Inr (v, p)"
    "determ_task_clock_start os v = Inr u'"
    by (cases "determ_task_clock_is_lowest_wait os x") (auto simp: wait_turn_def)
  from x obtain t where t: "task_clock_entry_stop E (get (sys u)) = Inr t"
    by (cases "task_clock_entry_stop E (get (sys u))")
      (simp_all add: determ_task_clock_stop_def determ_task_clock_stop_with_id_def determ_task_clock_stop_type_def
        sys_task_clock_do_call_def req_stop)
  with x have xt: "get (sys x) = t" "user_status (task_clock_info x) = user_status (task_clock_info u)"
    by (auto simp: determ_task_clock_stop_def determ_task_clock_stop_with_id_def determ_task_clock_stop_type_def
        sys_task_clock_do_call_def req_stop bindE_eq_Inr get_put)
  have "attentive M (cur E) (wakeups t (cur E)) t"
    using asks_attentive[OF asks.stop[OF ok refl t] M s] .
  then have "tc_reach M t" "on_list t (cur E)" "initialized (clocks t (cur E))" by (simp_all add: attentive_def)
  then have "has_turn (get (sys v)) (cur E) \<or> (\<exists>z. wait_polls os x = Some z \<and> poll_unwoken os get (cur E) z)"
    using wait_turn_taken[OF M ok, of x] me xt v(1) by simp
  with v(2) x show ?thesis by blast
qed

end

subsection \<open>The first statement of \<open>main\<close>\<close>

text \<open>
  The constructor sets the process's clock up but does not activate it, and neither does
  \<open>main\<close>, whose first statement halts it: the module then removes a thread from an empty list.
\<close>

definition constructed :: "kstate result" where
  "constructed = task_clock_entry_init (thread 0) (task_clock_group_init (thread 0) zero_state) zero_event 0x10080
     (\<lambda>_. Some ())"

definition set_up :: kstate where
  "set_up = zero_state\<lparr>notification_needed := True, clocks := (\<lambda>_. zero_entry)(0 := running_entry), lowest_tid := -1,
     user_status_arr := Some 128, active_threads := listarray_init,
     ustat := (\<lambda>_. zero_user_status)(0 := zero_user_status\<lparr>us_hwc_idx := - 1\<rparr>)\<rparr>"

lemmas set_up_defs = set_up_def running_entry_def concrete_defs state_defs

lemma constructed_result: "constructed = Inr set_up"
  by (simp add: constructed_def set_up_defs setup_defs upt_rec fun_eq_iff)

lemma set_up_off: "\<not> tick_counter_is_running (thread 0) set_up" "\<not> single_stepping_on (thread 0) set_up i"
  "logical_clock_reset_current_ticks (thread 0) set_up 0 = set_up"
  by (simp_all add: set_up_defs logical_clock_reset_current_ticks_def ic_reset_current_ticks_def
      read_performance_counter_def fun_eq_iff)

lemma set_up_disable: "\<exists>t. task_clock_on_disable (thread 0) set_up = Inr t \<and> active_threads t = listarray_init"
proof -
  have "task_clock_on_disable (thread 0) set_up =
      bindE (determine_lowest_and_notify_or_wait (thread 0) (set_up\<lparr>notification_needed := True\<rparr>)) wake_if"
    using set_up_off by (simp add: task_clock_on_disable_def two_threads_clock_0)
  then show ?thesis by (simp add: set_up_defs list_defs decision_defs)
qed

lemma halt_nobody_active: "active_threads s = listarray_init \<Longrightarrow> task_clock_entry_halt E s = Inl BugOn"
  by (simp add: task_clock_entry_halt_def mark_as_inactive_def Let_def upd_clock_def listarray_remove_def
      listarray_init_def)

theorem simple_test_hits_bug:
  "\<exists>s. constructed = Inr s \<and> tc_reach 2 s \<and>
     simple_main (kernel_os (thread 0)) te (lib_process 0 s) = Inl BugOn"
proof -
  obtain t where t: "task_clock_on_disable (thread 0) set_up = Inr t" "active_threads t = listarray_init"
    using set_up_disable by blast
  have "tc_reach 2 (task_clock_group_init (thread 0) zero_state)"
    by (rule tc_reach.start) (simp add: thread_def)
  then have "tc_reach 2 set_up"
    using tc_reach.step[OF _ tc_step.entry_init[OF thread_ok[of 0]]] constructed_result unfolding constructed_def by blast
  moreover have "simple_main (kernel_os (thread 0)) te (lib_process 0 set_up) = Inl BugOn"
    using t(1) halt_nobody_active[OF t(2)] by (simp add: simple_main_def determ_task_clock_halt_def on_perf_counter_def perf_counter_stop_def
        ioctl_or_exit_def lib_ioctl_def kernel_os_def kernel_handler_def lib_process_def)
  ultimately show ?thesis using constructed_result by blast
qed

end
