(* ===== verification/Clock_Debug.thy ===== *)
theory Clock_Debug
  imports Clock_Main
begin

text \<open>
  The parts of \<open>search_entries.h\<close> and \<open>clock_main.c\<close> that only observe: the variants of the
  searches that print or record what they see, the ring of debug records, and the difference
  of two times. What \<open>printk\<close> is given is returned as a list of lines.
\<close>

subsection \<open>The searches that print\<close>

datatype search_line =
    StartingSearch
  | LookingAt int int
  | Compared u64 u64 bool bool bool
  | SettingMin int

fun scan_print :: "kstate \<Rightarrow> int \<Rightarrow> int list \<Rightarrow> search_line list \<times> int" where
  "scan_print s min_tid [] = ([], min_tid)"
| "scan_print s min_tid (i # is) =
     (let looking = LookingAt i min_tid #
            (if min_tid \<ge> 0
             then [Compared (get_clock_ticks s i) (get_clock_ticks s min_tid) (clock_is_lower s i min_tid)
                     (waiting (clocks s i)) (sleeping (clocks s i))]
             else []);
          better = (candidate s i \<and> (min_tid < 0 \<or> clock_is_lower s i min_tid))
      in case scan_print s (if better then i else min_tid) is of
           (ls, r) \<Rightarrow> (looking @ (if better then [SettingMin i] else []) @ ls, r))"

definition search_for_lowest_print :: "env \<Rightarrow> kstate \<Rightarrow> (search_line list \<times> tid) result" where
  "search_for_lowest_print E s =
     (if in_nmi E
      then Inr ([StartingSearch],
             scan_least (candidate s) (clock_is_lower s) (-1) (listarray_foreach_allelements (active_threads s)))
      else bindE (listarray_foreach (active_threads s)) (\<lambda>is.
           case scan_print s (-1) is of (ls, r) \<Rightarrow> Inr (StartingSearch # ls, r)))"

text \<open>The line printed holds the lowest thread and the result.\<close>

definition search_for_lowest_waiting_print :: "env \<Rightarrow> kstate \<Rightarrow> ((tid \<times> tid) \<times> tid) result" where
  "search_for_lowest_waiting_print E s =
     bindE (listarray_foreach (active_threads s)) (\<lambda>is.
     bindE (mark_waiting s (thread_arr E) is) (\<lambda>arr.
     bindE (search_for_lowest E s) (\<lambda>low.
     bindE (if low \<ge> 0
            then if low < THREAD_ARR_SIZE then Inr (if arr low = 1 then low else -1)
                 else Inl OutOfBounds
            else Inr (-1)) (\<lambda>r.
     Inr ((low, r), r)))))"

text \<open>The debugging variant writes one byte per active thread to an array of 32 bytes.\<close>

definition DEBUG_ACTIVE_SIZE :: nat where "DEBUG_ACTIVE_SIZE = 32"

fun mark_and_record ::
  "kstate \<Rightarrow> (int \<Rightarrow> u32) \<Rightarrow> (nat \<Rightarrow> u8) \<Rightarrow> nat \<Rightarrow> int list \<Rightarrow> ((int \<Rightarrow> u32) \<times> (nat \<Rightarrow> u8)) result" where
  "mark_and_record s arr dbg j [] = Inr (arr, dbg)"
| "mark_and_record s arr dbg j (i # is) =
     bindE (if waiting (clocks s i)
            then if 0 \<le> i \<and> i < THREAD_ARR_SIZE then Inr (arr(i := 1)) else Inl OutOfBounds
            else Inr arr) (\<lambda>arr.
     if j < DEBUG_ACTIVE_SIZE
     then mark_and_record s arr (dbg(j := of_int (if candidate s i then i else i + 100))) (Suc j) is
     else Inl OutOfBounds)"

definition search_for_lowest_waiting_debug ::
  "env \<Rightarrow> kstate \<Rightarrow> (nat \<Rightarrow> u8) \<Rightarrow> (tid \<times> (nat \<Rightarrow> u8)) result" where
  "search_for_lowest_waiting_debug E s debug_arr =
     bindE (listarray_foreach (active_threads s)) (\<lambda>is.
     bindE (mark_and_record s (thread_arr E) debug_arr 0 is) (\<lambda>(arr, dbg).
     bindE (search_for_lowest E s) (\<lambda>low.
     if low \<ge> 0
     then if low < THREAD_ARR_SIZE then Inr (if arr low = 1 then low else -1, dbg)
          else Inl OutOfBounds
     else Inr (-1, dbg))))"

lemma scan_print_result: "snd (scan_print s m is) = scan_least (candidate s) (clock_is_lower s) m is"
  by (induction "is" arbitrary: m) (simp_all add: Let_def case_prod_unfold)

lemma search_for_lowest_print_result:
  "map_sum (\<lambda>e. e) snd (search_for_lowest_print E s) = search_for_lowest E s"
proof (cases "in_nmi E")
  case True
  then show ?thesis by (simp add: search_for_lowest_print_def search_for_lowest_def search_indices_def)
next
  case False
  then show ?thesis
    using scan_print_result[of s "-1"]
    by (cases "listarray_foreach (active_threads s)")
      (simp_all add: search_for_lowest_print_def search_for_lowest_def search_indices_def case_prod_unfold)
qed

lemma search_for_lowest_waiting_print_result:
  "map_sum (\<lambda>e. e) snd (search_for_lowest_waiting_print E s) = search_for_lowest_waiting E s"
  by (simp add: search_for_lowest_waiting_print_def search_for_lowest_waiting_def bindE_def split: sum.split)

lemma mark_and_record_few:
  "j + length is \<le> DEBUG_ACTIVE_SIZE \<Longrightarrow>
   map_sum (\<lambda>e. e) fst (mark_and_record s arr dbg j is) = mark_waiting s arr is"
  by (induction "is" arbitrary: arr dbg j) simp_all

lemma mark_and_record_many:
  "j \<le> DEBUG_ACTIVE_SIZE \<Longrightarrow> DEBUG_ACTIVE_SIZE < j + length is \<Longrightarrow>
   mark_and_record s arr dbg j is = Inl OutOfBounds"
proof (induction "is" arbitrary: arr dbg j)
  case Nil
  then show ?case by simp
next
  case (Cons i "is")
  then show ?case by (cases "j < DEBUG_ACTIVE_SIZE") simp_all
qed

text \<open>With more than 32 active threads the record does not fit its array.\<close>

lemma search_for_lowest_waiting_debug_overflow:
  assumes "listarray_foreach (active_threads s) = Inr xs" "32 < length xs"
  shows "search_for_lowest_waiting_debug E s dbg = Inl OutOfBounds"
  using mark_and_record_many[of 0 xs s "thread_arr E" dbg] assms
  by (simp add: search_for_lowest_waiting_debug_def DEBUG_ACTIVE_SIZE_def)

subsection \<open>Times\<close>

text \<open>\<open>long\<close>s as 64-bit words, read with their sign.\<close>

record timespec =
  tv_sec :: u64
  tv_nsec :: u64

definition lowest_time :: "timespec \<Rightarrow> timespec \<Rightarrow> int" where
  "lowest_time t1 t2 =
     (if tv_sec t1 \<noteq> tv_sec t2
      then if sint (tv_sec t1) < sint (tv_sec t2) then 1 else 2
      else if sint (tv_nsec t1) < sint (tv_nsec t2) then 1 else 2)"

definition elapsed_time_ns :: "timespec \<Rightarrow> timespec \<Rightarrow> u64" where
  "elapsed_time_ns t1 t2 =
     (let lowest = lowest_time t1 t2;
          start = (if lowest = 1 then t1 else t2);
          end' = (if lowest = 1 then t2 else t1)
      in (tv_sec end' - tv_sec start) * 1000000000 + (tv_nsec end' - tv_nsec start))"

text \<open>For normalised times the result is the distance in nanoseconds, in either order.\<close>

definition time_ns :: "timespec \<Rightarrow> int" where
  "time_ns t = sint (tv_sec t) * 1000000000 + sint (tv_nsec t)"

definition normal_time :: "timespec \<Rightarrow> bool" where
  "normal_time t \<longleftrightarrow> 0 \<le> sint (tv_nsec t) \<and> sint (tv_nsec t) < 1000000000"

lemma word_of_time_ns: "word_of_int (time_ns t) = tv_sec t * 1000000000 + (tv_nsec t :: u64)"
  by (simp add: time_ns_def)

lemma lowest_time_le:
  assumes "normal_time t1" "normal_time t2"
  shows "if lowest_time t1 t2 = 1 then time_ns t1 \<le> time_ns t2 else time_ns t2 \<le> time_ns t1"
proof -
  have inj: "sint a = sint b \<longleftrightarrow> a = b" for a b :: u64 by (auto intro: signed_word_eqI)
  show ?thesis
  proof (cases "tv_sec t1 = tv_sec t2")
    case True
    then show ?thesis by (auto simp: lowest_time_def time_ns_def)
  next
    case False
    then have "sint (tv_sec t1) < sint (tv_sec t2) \<or> sint (tv_sec t2) < sint (tv_sec t1)"
      using inj by (meson linorder_neqE)
    with False assms show ?thesis by (auto simp: lowest_time_def time_ns_def normal_time_def)
  qed
qed

lemma elapsed_time_ns_distance:
  assumes "normal_time t1" "normal_time t2"
  shows "elapsed_time_ns t1 t2 = word_of_int \<bar>time_ns t1 - time_ns t2\<bar>"
proof -
  have e: "elapsed_time_ns t1 t2 =
      (if lowest_time t1 t2 = 1 then word_of_int (time_ns t2 - time_ns t1) else word_of_int (time_ns t1 - time_ns t2))"
    unfolding of_int_diff word_of_time_ns by (simp add: elapsed_time_ns_def Let_def algebra_simps)
  show ?thesis
  proof (cases "lowest_time t1 t2 = 1")
    case True
    with lowest_time_le[OF assms] have "\<bar>time_ns t1 - time_ns t2\<bar> = time_ns t2 - time_ns t1" by simp
    with e True show ?thesis by (simp only: simp_thms if_True)
  next
    case False
    with lowest_time_le[OF assms] have "\<bar>time_ns t1 - time_ns t2\<bar> = time_ns t1 - time_ns t2" by simp
    with e False show ?thesis by (simp only: simp_thms if_False)
  qed
qed

subsection \<open>The ring of debug records\<close>

definition DEBUG_THREAD_COUNT :: nat where "DEBUG_THREAD_COUNT = 24"
definition clock_debug_max_entries :: nat where "clock_debug_max_entries = 5000"

record clock_debug =
  cd_clocks :: "nat \<Rightarrow> u64"
  cd_clocks_computed :: "nat \<Rightarrow> u64"
  cd_initialized :: "nat \<Rightarrow> bool"
  cd_sleeping :: "nat \<Rightarrow> bool"
  cd_inactive :: "nat \<Rightarrow> bool"
  cd_waiting :: "nat \<Rightarrow> bool"
  cd_active :: "nat \<Rightarrow> u8"
  cd_new_low :: int
  cd_new_low_computed :: int
  cd_lowest_clock :: u64
  cd_event :: int
  cd_current_is_lowest :: int
  cd_current_id :: int
  cd_sample_rate :: u64
  cd_prev_count :: u64
  cd_nmi_new_low :: bool
  cd_last_written :: u64

text \<open>\<open>debug_events\<close> is \<open>__debug_counter_overflow\<close>, which counts all records.\<close>

record debug_state =
  clock_debug_overflow_ring :: "nat \<Rightarrow> clock_debug"
  debug_counter_overflow :: nat
  debug_events :: u32

definition clock_debug_overflow :: "env \<Rightarrow> kstate \<Rightarrow> int \<Rightarrow> int \<Rightarrow> debug_state \<Rightarrow> debug_state result" where
  "clock_debug_overflow E s new_low ev d =
     (let n = debug_counter_overflow d; r = clock_debug_overflow_ring d n; e = clocks s (cur E)
      in bindE (search_for_lowest_waiting_debug E s (cd_active r)) (\<lambda>(low, active).
         if \<not> valid_tid E low \<or> \<not> valid_tid E (int DEBUG_THREAD_COUNT - 1) then Inl OutOfBounds
         else let upto' = (\<lambda>f old i. if i < DEBUG_THREAD_COUNT then f (int i) else old i);
                  upto_b = (\<lambda>f old i. if i < DEBUG_THREAD_COUNT then f (clocks s (int i)) else old i)
              in Inr (d\<lparr>clock_debug_overflow_ring := (clock_debug_overflow_ring d)(n := r\<lparr>
                     cd_clocks := upto' (get_clock_ticks s) (cd_clocks r),
                     cd_clocks_computed := upto' (\<lambda>_. get_clock_ticks s low) (cd_clocks_computed r),
                     cd_initialized := upto_b initialized (cd_initialized r),
                     cd_sleeping := upto_b sleeping (cd_sleeping r),
                     cd_inactive := upto_b inactive (cd_inactive r),
                     cd_waiting := upto_b waiting (cd_waiting r),
                     cd_active := active, cd_new_low := new_low, cd_new_low_computed := low,
                     cd_lowest_clock := lowest_ticks s, cd_event := ev, cd_current_id := cur E,
                     cd_sample_rate := sample_period (hw (event e)), cd_prev_count := ev_count (event e),
                     cd_nmi_new_low := nmi_new_low s, cd_last_written := last_written (event e)\<rparr>),
                   debug_counter_overflow := (n + 1) mod clock_debug_max_entries,
                   debug_events := debug_events d + 1\<rparr>)))"

text \<open>The handler of \<open>task_clock_func\<close> has an empty body.\<close>

definition task_clock_debug_add_event :: "int \<Rightarrow> kstate \<Rightarrow> kstate" where
  "task_clock_debug_add_event ev s = s"

subsection \<open>Printing\<close>

datatype debug_line =
    ClockLine int u64 bool bool bool bool
  | NewLow int int
  | CounterLine int int
  | ThreadLine nat u64 u64 bool bool bool bool
  | SummaryLine int int u64 int int u64 u64 bool u64
  | ActiveLine "u8 list"

definition debug_print :: "env \<Rightarrow> kstate \<Rightarrow> debug_line list result" where
  "debug_print E s =
     bindE (search_for_lowest_waiting E s) (\<lambda>new_low.
     Inr (map (\<lambda>i. let e = clocks s i
                 in ClockLine i (get_clock_ticks s i) (inactive e) (initialized e) (waiting e) (sleeping e)) [0..6] @
          [NewLow new_low (cur E)]))"

definition record_lines :: "clock_debug \<Rightarrow> debug_line list" where
  "record_lines r =
     map (\<lambda>j. ThreadLine j (cd_clocks r j) (cd_clocks_computed r j) (cd_initialized r j)
                 (cd_inactive r j) (cd_waiting r j) (cd_sleeping r j)) [0..<DEBUG_THREAD_COUNT] @
     [SummaryLine (cd_new_low r) (cd_new_low_computed r) (cd_lowest_clock r) (cd_event r)
        (cd_current_id r) (cd_sample_rate r) (cd_prev_count r) (cd_nmi_new_low r) (cd_last_written r),
      ActiveLine (map (cd_active r) [0..<32])]"

definition clock_debug_print_last_n :: "int \<Rightarrow> debug_state \<Rightarrow> debug_line list" where
  "clock_debug_print_last_n n d =
     (let c = int (debug_counter_overflow d); i = (if c > n then c - n else 0)
      in CounterLine c i # concat (map (\<lambda>i. record_lines (clock_debug_overflow_ring d (nat i))) [i..c - 1]))"

definition clock_debug_print_overflow :: "debug_state \<Rightarrow> debug_line list" where
  "clock_debug_print_overflow d =
     concat (map (\<lambda>i. record_lines (clock_debug_overflow_ring d i)) [0..<debug_counter_overflow d])"

lemma clock_debug_overflow_counter:
  "clock_debug_overflow E s new_low ev d = Inr d' \<Longrightarrow> debug_counter_overflow d' < clock_debug_max_entries"
  by (auto simp: clock_debug_overflow_def Let_def clock_debug_max_entries_def split: if_splits)

end
