(* ===== verification/Clock_Module.thy ===== *)
theory Clock_Module
  imports Clock_Debug
begin

text \<open>
  Loading and unloading the module: \<open>init_module\<close> and \<open>cleanup_module\<close> of \<open>clock_main.c\<close>, which
  fill and clear \<open>task_clock_func\<close>, the table of function pointers through which the patched
  kernel calls the handlers.
\<close>

subsection \<open>The table\<close>

text \<open>The fields of the table that the module sets, and the functions of the module it sets them to.\<close>

datatype tc_slot =
  Slot_overflow_handler | Slot_group_init | Slot_entry_init | Slot_entry_activate
   | Slot_entry_halt | Slot_on_disable | Slot_on_enable | Slot_entry_activate_other
   | Slot_entry_wait | Slot_entry_sleep | Slot_overflow_update_period | Slot_add_ticks
   | Slot_entry_woke_up | Slot_debug_add_event | Slot_entry_stop | Slot_entry_start
   | Slot_entry_reset | Slot_entry_start_no_notify | Slot_entry_stop_no_notify
   | Slot_entry_is_singlestep

datatype tc_function =
  Task_clock_overflow_handler | Task_clock_group_init | Task_clock_entry_init
   | Task_clock_entry_activate | Task_clock_entry_halt | Task_clock_on_disable
   | Task_clock_on_enable | Task_clock_entry_activate_other | Task_clock_entry_wait
   | Task_clock_entry_sleep | Task_clock_entry_overflow_update_period | Task_clock_add_ticks
   | Task_clock_entry_woke_up | Task_clock_debug_add_event | Task_clock_entry_stop
   | Task_clock_entry_start | Task_clock_entry_reset | Task_clock_entry_start_no_notify
   | Task_clock_entry_stop_no_notify | Task_clock_entry_is_singlestep

record module_state =
  task_clock_func :: "tc_slot \<Rightarrow> tc_function option"
  debug_counter :: nat
  debug_event_counter :: u32
  starts :: u32

text \<open>A sequence of assignments to slots.\<close>

fun assign_slots :: "(tc_slot \<times> tc_function option) list \<Rightarrow> (tc_slot \<Rightarrow> tc_function option) \<Rightarrow>
  tc_slot \<Rightarrow> tc_function option" where
  "assign_slots [] t = t"
| "assign_slots ((x, f) # xs) t = assign_slots xs (t(x := f))"

definition init_module :: "config \<Rightarrow> module_state \<Rightarrow> module_state result" where
  "init_module C m =
     (if use_bounded_fence C \<and> BOUNDED_CHUNK_SIZE < MAX_CLOCK_SAMPLE_PERIOD then Inl BugOn
      else Inr (m\<lparr>task_clock_func := assign_slots
          [(Slot_overflow_handler, Some Task_clock_overflow_handler),
           (Slot_group_init, Some Task_clock_group_init),
           (Slot_entry_init, Some Task_clock_entry_init),
           (Slot_entry_activate, Some Task_clock_entry_activate),
           (Slot_entry_halt, Some Task_clock_entry_halt),
           (Slot_on_disable, Some Task_clock_on_disable),
           (Slot_on_enable, Some Task_clock_on_enable),
           (Slot_entry_activate_other, Some Task_clock_entry_activate_other),
           (Slot_entry_wait, Some Task_clock_entry_wait),
           (Slot_entry_sleep, Some Task_clock_entry_sleep),
           (Slot_overflow_update_period, Some Task_clock_entry_overflow_update_period),
           (Slot_add_ticks, Some Task_clock_add_ticks),
           (Slot_entry_woke_up, Some Task_clock_entry_woke_up),
           (Slot_debug_add_event, Some Task_clock_debug_add_event),
           (Slot_entry_stop, Some Task_clock_entry_stop),
           (Slot_entry_start, Some Task_clock_entry_start),
           (Slot_entry_reset, Some Task_clock_entry_reset),
           (Slot_entry_start_no_notify, Some Task_clock_entry_start_no_notify),
           (Slot_entry_stop_no_notify, Some Task_clock_entry_stop_no_notify),
           (Slot_entry_is_singlestep,
            if use_bounded_fence C then Some Task_clock_entry_is_singlestep else None)] (task_clock_func m),
         debug_counter := 0, debug_event_counter := 0, starts := 0\<rparr>))"

text \<open>The counter of starts is printed.\<close>

definition cleanup_module :: "module_state \<Rightarrow> module_state \<times> u32" where
  "cleanup_module m =
     (m\<lparr>task_clock_func := assign_slots
        [(Slot_overflow_handler, None), (Slot_group_init, None), (Slot_entry_init, None),
         (Slot_entry_activate, None), (Slot_entry_halt, None), (Slot_on_disable, None),
         (Slot_on_enable, None), (Slot_entry_activate_other, None), (Slot_entry_wait, None),
         (Slot_add_ticks, None), (Slot_entry_woke_up, None), (Slot_debug_add_event, None),
         (Slot_entry_stop, None), (Slot_entry_start, None), (Slot_entry_is_singlestep, None)] (task_clock_func m)\<rparr>, starts m)"

subsection \<open>What is left after unloading\<close>

lemma assign_slots_lookup:
  "assign_slots xs t x = (case map_of (rev xs) x of None \<Rightarrow> t x | Some f \<Rightarrow> f)"
  by (induction xs arbitrary: t) (auto simp: map_add_def split: option.splits)

lemma cleanup_module_slot:
  "task_clock_func (fst (cleanup_module m)) x =
     (if x \<in> {Slot_entry_sleep, Slot_entry_reset, Slot_entry_start_no_notify, Slot_entry_stop_no_notify,
        Slot_overflow_update_period} then task_clock_func m x else None)"
  by (cases x) (simp_all add: cleanup_module_def assign_slots_lookup del: assign_slots.simps)

lemma init_module_slot:
  assumes "init_module C m = Inr m'"
  shows "task_clock_func m' x = None \<longleftrightarrow> x = Slot_entry_is_singlestep \<and> \<not> use_bounded_fence C"
proof -
  have big: "(BOUNDED_CHUNK_SIZE < MAX_CLOCK_SAMPLE_PERIOD) = False"
    by (simp add: BOUNDED_CHUNK_SIZE_def MAX_CLOCK_SAMPLE_PERIOD_def)
  have "task_clock_func m' = task_clock_func (projr (init_module C m))" using assms by simp
  then show ?thesis
    unfolding init_module_def big
    by (cases x) (simp_all add: assign_slots_lookup del: assign_slots.simps)
qed

text \<open>
  C39: loading never hits its \<open>BUG_ON\<close>, whatever the build options, and fills every
  slot of the table, that of the single-step handler only in a build with the bounded fence.
  Unloading clears all but five slots: the handlers for sleeping, for resetting, for the two
  requests without notification and for updating the period after an overflow still point
  into the module that is gone.
\<close>

theorem unload_leaves_handlers:
  "\<exists>m'. init_module C m = Inr m' \<and>
     (\<forall>x. task_clock_func m' x = None \<longleftrightarrow> x = Slot_entry_is_singlestep \<and> \<not> use_bounded_fence C) \<and>
     (\<forall>x. task_clock_func (fst (cleanup_module m')) x \<noteq> None \<longleftrightarrow>
        x \<in> {Slot_entry_sleep, Slot_entry_reset, Slot_entry_start_no_notify, Slot_entry_stop_no_notify,
             Slot_overflow_update_period})"
proof -
  have "\<not> BOUNDED_CHUNK_SIZE < MAX_CLOCK_SAMPLE_PERIOD"
    by (simp add: BOUNDED_CHUNK_SIZE_def MAX_CLOCK_SAMPLE_PERIOD_def)
  then obtain m' where m': "init_module C m = Inr m'" by (simp add: init_module_def)
  with init_module_slot[OF m'] show ?thesis by (auto simp: cleanup_module_slot)
qed

end
